theory Spec2Isabelle
  imports Main
begin

section \<open>Kanuni: the program\<close>

text \<open>
  A shallow embedding of \<^verbatim>\<open>kanuni.py\<close>: the grid, the player with its cells and
  features, the food spawner, the key handler and \<^verbatim>\<open>update_player\<close>. Rendering
  (\<^verbatim>\<open>draw_grid\<close>, \<^verbatim>\<open>draw_info\<close>, the shape list, \<^verbatim>\<open>print\<close>) reads the state and
  never writes it, and is left out.
\<close>

subsection \<open>Configuration\<close>

text \<open>\<^verbatim>\<open>CONFIG["tiles"]["row"]\<close>, \<^verbatim>\<open>CONFIG["tiles"]["col"]\<close> and \<^verbatim>\<open>CONFIG["game"]["max_food"]\<close>.\<close>

definition tiles_row :: nat where
  "tiles_row = 20"

definition tiles_col :: nat where
  "tiles_col = 20"

definition max_food :: int where
  "max_food = 10"

subsection \<open>Exceptions\<close>

datatype error = IndexError

subsection \<open>The random module\<close>

text \<open>
  Python's global random generator is the list of the raw numbers it is going to produce,
  threaded through every function that draws from it; a generator that has run out
  produces 0. \<^verbatim>\<open>randrange(start, stop)\<close> reduces the next raw number into
  \<open>[start, stop)\<close>, \<^verbatim>\<open>choice(seq)\<close> into an index of \<open>seq\<close>, so that every raw list is a
  legal run of the generator and every outcome of a call can be produced. The source calls
  \<^verbatim>\<open>randrange\<close> with constant non-empty ranges only, and \<^verbatim>\<open>choice\<close> on non-empty
  sequences only (two constant tuples, and the cell list inside a loop that runs
  \<open>len(cells)\<close> times).
\<close>

type_synonym rng = "nat list"

fun randbelow :: "nat \<Rightarrow> rng \<Rightarrow> nat \<times> rng" where
  "randbelow n [] = (0, [])"
| "randbelow n (r # rs) = (r mod n, rs)"

definition randrange :: "int \<Rightarrow> int \<Rightarrow> rng \<Rightarrow> int \<times> rng" where
  "randrange start stop rs =
     (case randbelow (nat (stop - start)) rs of (k, rs') \<Rightarrow> (start + int k, rs'))"

definition choice :: "'a list \<Rightarrow> rng \<Rightarrow> 'a \<times> rng" where
  "choice seq rs = (case randbelow (length seq) rs of (k, rs') \<Rightarrow> (seq ! k, rs'))"

subsection \<open>Feeding, Cell, Features\<close>

datatype Feeding = HERB | CARN | OMN

text \<open>\<^verbatim>\<open>tuple(Feeding.__members__.values())\<close>, in definition order.\<close>

definition Feeding_members :: "Feeding list" where
  "Feeding_members = [HERB, CARN, OMN]"

text \<open>
  The two movement axes, the strings \<^verbatim>\<open>"x"\<close> and \<^verbatim>\<open>"y"\<close>;
  \<^verbatim>\<open>CONFIG["movement"]\<close> maps each to the other.
\<close>

datatype axis = Ax_x | Ax_y

text \<open>
  A cell has the dataclass fields \<^verbatim>\<open>x\<close> and \<^verbatim>\<open>y\<close>; \<^verbatim>\<open>update_coords\<close> adds the
  attributes \<^verbatim>\<open>_x\<close> and \<^verbatim>\<open>_y\<close> (here \<open>prev_x\<close>, \<open>prev_y\<close>, absent until first set).
\<close>

record Cell =
  cell_x :: int
  cell_y :: int
  prev_x :: "int option"
  prev_y :: "int option"

definition Cell_init :: "int \<Rightarrow> int \<Rightarrow> Cell" where
  "Cell_init cx cy = \<lparr>cell_x = cx, cell_y = cy, prev_x = None, prev_y = None\<rparr>"

fun update_coords :: "axis \<Rightarrow> int \<Rightarrow> Cell \<Rightarrow> Cell" where
  "update_coords Ax_x amount c = c\<lparr>prev_x := Some (cell_x c), cell_x := cell_x c + amount\<rparr>"
| "update_coords Ax_y amount c = c\<lparr>prev_y := Some (cell_y c), cell_y := cell_y c + amount\<rparr>"

record Features =
  food :: int
  speed :: int
  feeding :: Feeding

definition Features_init :: Features where
  "Features_init = \<lparr>food = 1, speed = 1, feeding = HERB\<rparr>"

subsection \<open>Player\<close>

record Player =
  cells :: "Cell list"
  points :: int
  level :: int
  loses :: int
  features :: Features

text \<open>The dataclass defaults followed by \<^verbatim>\<open>__post_init__\<close>.\<close>

definition Player_init :: "rng \<Rightarrow> Player \<times> rng" where
  "Player_init rs =
     (case choice Feeding_members rs of (fd, rs') \<Rightarrow>
        (\<lparr>cells = [Cell_init 0 0], points = 0, level = 1, loses = 0,
          features = Features_init\<lparr>feeding := fd\<rparr>\<rparr>, rs'))"

text \<open>\<^verbatim>\<open>cell_collision(row, col)\<close>: the loop over the cells with its early return.\<close>

fun cell_collision_loop :: "int \<Rightarrow> int \<Rightarrow> Cell list \<Rightarrow> bool" where
  "cell_collision_loop row col [] = False"
| "cell_collision_loop row col (c # cs) =
     (if cell_y c = row \<and> cell_x c = col then True else cell_collision_loop row col cs)"

definition cell_collision :: "int \<Rightarrow> int \<Rightarrow> Player \<Rightarrow> bool" where
  "cell_collision row col p = cell_collision_loop row col (cells p)"

text \<open>
  \<^verbatim>\<open>obtain_cell\<close>: at most \<open>len(cells)\<close> attempts. Each picks a cell and an axis, builds
  the neighbour one step up that axis, and calls \<^verbatim>\<open>cell_collision(cell.x, cell.y)\<close>,
  that is with the neighbour's \<open>x\<close> as \<open>row\<close> and its \<open>y\<close> as \<open>col\<close>.
\<close>

definition neighbour :: "axis \<Rightarrow> Cell \<Rightarrow> Cell" where
  "neighbour through c =
     (case through of
        Ax_x \<Rightarrow> Cell_init (cell_x c + 1) (cell_y c)
      | Ax_y \<Rightarrow> Cell_init (cell_x c) (cell_y c + 1))"

fun obtain_cell_loop :: "nat \<Rightarrow> Player \<Rightarrow> rng \<Rightarrow> Player \<times> rng" where
  "obtain_cell_loop 0 p rs = (p, rs)"
| "obtain_cell_loop (Suc n) p rs =
     (case choice (cells p) rs of (c, rs1) \<Rightarrow>
      case choice [Ax_x, Ax_y] rs1 of (through, rs2) \<Rightarrow>
        let cell = neighbour through c in
        if cell_collision (cell_x cell) (cell_y cell) p then obtain_cell_loop n p rs2
        else if cell_x cell < int tiles_col \<and> cell_y cell < int tiles_row
        then (p\<lparr>cells := cells p @ [cell]\<rparr>, rs2)
        else obtain_cell_loop n p rs2)"

definition obtain_cell :: "Player \<Rightarrow> rng \<Rightarrow> Player \<times> rng" where
  "obtain_cell p rs = obtain_cell_loop (length (cells p)) p rs"

text \<open>
  \<^verbatim>\<open>obtain_new_feature\<close>: the three draws, then the loop over \<^verbatim>\<open>vars(self.features)\<close>
  that sets a field equal to 0 to 1 (the feeding value is an enum member and never equals
  0), then \<^verbatim>\<open>obtain_cell\<close>.
\<close>

definition reset_zero :: "Features \<Rightarrow> Features" where
  "reset_zero f =
     (let f1 = (if food f = 0 then f\<lparr>food := 1\<rparr> else f)
      in if speed f1 = 0 then f1\<lparr>speed := 1\<rparr> else f1)"

definition obtain_new_feature :: "Player \<Rightarrow> rng \<Rightarrow> Player \<times> rng" where
  "obtain_new_feature p rs =
     (case randrange 1 4 rs of (df, rs1) \<Rightarrow>
      case randrange (- 1) 2 rs1 of (ds, rs2) \<Rightarrow>
      case choice Feeding_members rs2 of (fd, rs3) \<Rightarrow>
        let f = features p;
            f' = f\<lparr>food := food f + df, speed := speed f + ds, feeding := fd\<rparr>
        in obtain_cell (p\<lparr>features := reset_zero f'\<rparr>) rs3)"

definition required_points :: "Player \<Rightarrow> int" where
  "required_points p = level p * 4"

subsection \<open>Grid\<close>

text \<open>
  Python list indexing: an index from \<open>-len\<close> to \<open>-1\<close> counts from the end, anything
  outside \<open>[-len, len)\<close> raises IndexError. \<open>py_index\<close> gives the position read.
\<close>

definition py_index :: "'a list \<Rightarrow> int \<Rightarrow> nat option" where
  "py_index xs i =
     (if 0 \<le> i \<and> i < int (length xs) then Some (nat i)
      else if - int (length xs) \<le> i \<and> i < 0 then Some (nat (int (length xs) + i))
      else None)"

text \<open>The grid as a value: the list of its rows, each the list of its tiles.\<close>

type_synonym Grid = "int list list"

definition Grid_init :: "nat \<Rightarrow> nat \<Rightarrow> Grid" where
  "Grid_init row col = replicate row (replicate col 0)"

definition set_block :: "int \<Rightarrow> int \<Rightarrow> int \<Rightarrow> Grid \<Rightarrow> error + Grid" where
  "set_block col row val g =
     (case py_index g row of
        None \<Rightarrow> Inl IndexError
      | Some r \<Rightarrow>
          (case py_index (g ! r) col of
             None \<Rightarrow> Inl IndexError
           | Some c \<Rightarrow> Inr (g[r := (g ! r)[c := val]])))"

definition get_block :: "int \<Rightarrow> int \<Rightarrow> Grid \<Rightarrow> error + int" where
  "get_block col row g =
     (case py_index g row of
        None \<Rightarrow> Inl IndexError
      | Some r \<Rightarrow>
          (case py_index (g ! r) col of
             None \<Rightarrow> Inl IndexError
           | Some c \<Rightarrow> Inr (g ! r ! c)))"

text \<open>
  The grid as Python builds it: \<open>data\<close> is a list of references to row objects that live
  in a store of list objects. \<^verbatim>\<open>Grid.__init__\<close> allocates one new list per row
  (\<^verbatim>\<open>list(repeat(0, col)).copy()\<close> inside the comprehension), and \<^verbatim>\<open>set_block\<close>
  writes through the reference \<open>data[row]\<close>.
\<close>

record GridObj =
  data :: "nat list"
  store :: "int list list"

fun Grid_rows :: "nat \<Rightarrow> nat \<Rightarrow> GridObj \<Rightarrow> GridObj" where
  "Grid_rows 0 col g = g"
| "Grid_rows (Suc n) col g =
     Grid_rows n col
       (g\<lparr>data := data g @ [length (store g)], store := store g @ [replicate col 0]\<rparr>)"

definition GridObj_init :: "nat \<Rightarrow> nat \<Rightarrow> GridObj" where
  "GridObj_init row col = Grid_rows row col \<lparr>data = [], store = []\<rparr>"

definition obj_set_block :: "int \<Rightarrow> int \<Rightarrow> int \<Rightarrow> GridObj \<Rightarrow> error + GridObj" where
  "obj_set_block col row val g =
     (case py_index (data g) row of
        None \<Rightarrow> Inl IndexError
      | Some r \<Rightarrow>
          (let a = data g ! r in
           case py_index (store g ! a) col of
             None \<Rightarrow> Inl IndexError
           | Some c \<Rightarrow> Inr (g\<lparr>store := (store g)[a := (store g ! a)[c := val]]\<rparr>)))"

definition obj_get_block :: "int \<Rightarrow> int \<Rightarrow> GridObj \<Rightarrow> error + int" where
  "obj_get_block col row g =
     (case py_index (data g) row of
        None \<Rightarrow> Inl IndexError
      | Some r \<Rightarrow>
          (let a = data g ! r in
           case py_index (store g ! a) col of
             None \<Rightarrow> Inl IndexError
           | Some c \<Rightarrow> Inr (store g ! a ! c)))"

text \<open>The grids a program can hold: a constructed one, after any number of writes.\<close>

inductive grid_built :: "GridObj \<Rightarrow> bool" where
  built_init: "grid_built (GridObj_init row col)"
| built_set: "grid_built g \<Longrightarrow> obj_set_block col row val g = Inr g' \<Longrightarrow> grid_built g'"

text \<open>The value a grid object stands for: its rows read through the references.\<close>

definition grid_of :: "GridObj \<Rightarrow> Grid" where
  "grid_of g = map (\<lambda>a. store g ! a) (data g)"

subsection \<open>Controller\<close>

text \<open>
  \<open>pending_task\<close> holds the arguments \<open>(x, y, action)\<close> of the stored \<^verbatim>\<open>set_block\<close>
  call, the only task the source ever stores. \<open>event\<close> holds the number that the
  message text is built from.
\<close>

record Controller =
  grid :: Grid
  player :: Player
  herb_foods :: int
  carn_foods :: int
  pending_task :: "(int \<times> int \<times> int) option"
  event :: "int option"
  event_timer :: int

definition Controller_init :: "rng \<Rightarrow> Controller \<times> rng" where
  "Controller_init rs =
     (case Player_init rs of (p, rs') \<Rightarrow>
        (\<lparr>grid = Grid_init tiles_row tiles_col, player = p, herb_foods = 0, carn_foods = 0,
          pending_task = None, event = None, event_timer = 0\<rparr>, rs'))"

text \<open>
  \<^verbatim>\<open>_draw_foods(food, amount)\<close>: the loop draws \<open>row\<close> and \<open>col\<close>, asks
  \<^verbatim>\<open>cell_collision(row, col)\<close> and calls \<^verbatim>\<open>set_block(row, col, food)\<close>, whose
  parameters are \<open>(col, row, value)\<close>.
\<close>

fun draw_foods_loop ::
  "int \<Rightarrow> nat \<Rightarrow> int \<Rightarrow> Controller \<Rightarrow> rng \<Rightarrow> error + (int \<times> Controller \<times> rng)" where
  "draw_foods_loop fd 0 increased st rs = Inr (increased, st, rs)"
| "draw_foods_loop fd (Suc n) increased st rs =
     (case randrange 0 (int tiles_row) rs of (row, rs1) \<Rightarrow>
      case randrange 0 (int tiles_col) rs1 of (col, rs2) \<Rightarrow>
        if cell_collision row col (player st) then draw_foods_loop fd n increased st rs2
        else (case set_block row col fd (grid st) of
                Inl e \<Rightarrow> Inl e
              | Inr g \<Rightarrow> draw_foods_loop fd n (increased + 1) (st\<lparr>grid := g\<rparr>) rs2))"

definition draw_foods_amount ::
  "int \<Rightarrow> int \<Rightarrow> Controller \<Rightarrow> rng \<Rightarrow> error + (int \<times> Controller \<times> rng)" where
  "draw_foods_amount fd amount st rs =
     (if amount \<le> 0 then Inr (0, st, rs) else draw_foods_loop fd (nat amount) 0 st rs)"

definition draw_foods :: "Controller \<Rightarrow> rng \<Rightarrow> error + (Controller \<times> rng)" where
  "draw_foods st rs =
     (let herb_amount = max_food - herb_foods st;
          carn_amount = max_food - carn_foods st
      in case draw_foods_amount 2 herb_amount st rs of
           Inl e \<Rightarrow> Inl e
         | Inr (n1, st1, rs1) \<Rightarrow>
             (case draw_foods_amount 3 carn_amount (st1\<lparr>herb_foods := herb_foods st1 + n1\<rparr>) rs1 of
                Inl e \<Rightarrow> Inl e
              | Inr (n2, st2, rs2) \<Rightarrow> Inr (st2\<lparr>carn_foods := carn_foods st2 + n2\<rparr>, rs2)))"

text \<open>\<^verbatim>\<open>draw_player(value)\<close>: stamp every cell, then spawn food (then render).\<close>

fun stamp_cells :: "Cell list \<Rightarrow> int \<Rightarrow> Grid \<Rightarrow> error + Grid" where
  "stamp_cells [] val g = Inr g"
| "stamp_cells (c # cs) val g =
     (case set_block (cell_x c) (cell_y c) val g of
        Inl e \<Rightarrow> Inl e
      | Inr g' \<Rightarrow> stamp_cells cs val g')"

definition draw_player :: "int \<Rightarrow> Controller \<Rightarrow> rng \<Rightarrow> error + (Controller \<times> rng)" where
  "draw_player val st rs =
     (case stamp_cells (cells (player st)) val (grid st) of
        Inl e \<Rightarrow> Inl e
      | Inr g \<Rightarrow> draw_foods (st\<lparr>grid := g\<rparr>) rs)"

definition on_draw :: "Controller \<Rightarrow> rng \<Rightarrow> error + (Controller \<times> rng)" where
  "on_draw st rs = draw_player 1 st rs"

subsection \<open>update_player\<close>

text \<open>
  The three ways \<^verbatim>\<open>update_player(utype, action, *args)\<close> is called:
  \<^verbatim>\<open>("tile", current, x, y)\<close>, \<^verbatim>\<open>("evolve", points)\<close> and \<^verbatim>\<open>("restart", None)\<close>.
\<close>

datatype update = Tile int int int | Evolve int | Restart

text \<open>
  The head of \<^verbatim>\<open>update_player\<close>, run on every call before \<open>utype\<close> is looked at: the
  timer, the roll, and \<^verbatim>\<open>cells.pop()\<close>, which removes the last cell.
\<close>

definition cell_death :: "Controller \<Rightarrow> rng \<Rightarrow> Controller \<times> rng" where
  "cell_death st rs =
     (case randrange 0 250 rs of (roll, rs') \<Rightarrow>
        let st1 = st\<lparr>event_timer := event_timer st + 1\<rparr>;
            p = player st1
        in if roll = 66 \<and> length (cells p) > 1
           then (st1\<lparr>player := p\<lparr>loses := loses p + 1, cells := butlast (cells p)\<rparr>,
                     event := Some (loses p + 1)\<rparr>, rs')
           else (st1, rs'))"

text \<open>
  The chain of tests on the feeding type: True where the source reaches
  \<^verbatim>\<open>self.player.points += ...\<close>, False where it stores the pending task and returns.
\<close>

definition feeding_passes :: "Feeding \<Rightarrow> int \<Rightarrow> bool" where
  "feeding_passes fd action =
     (if fd \<noteq> OMN
      then (if fd = CARN \<and> action = 3 then True
            else if fd = HERB \<and> action = 2 then True
            else False)
      else True)"

definition update_player :: "update \<Rightarrow> Controller \<Rightarrow> rng \<Rightarrow> Controller \<times> rng" where
  "update_player u st rs =
     (case cell_death st rs of (st1, rs1) \<Rightarrow>
        (case u of
           Tile action cx cy \<Rightarrow>
             if action = 3 \<or> action = 2
             then if feeding_passes (feeding (features (player st1))) action
                  then let p = player st1;
                           st2 = st1\<lparr>player := p\<lparr>points := points p + food (features p)\<rparr>\<rparr>
                       in (if action = 2 then st2\<lparr>herb_foods := herb_foods st2 - 1\<rparr>
                           else st2\<lparr>carn_foods := carn_foods st2 - 1\<rparr>, rs1)
                  else (st1\<lparr>pending_task := Some (cx, cy, action)\<rparr>, rs1)
             else (st1, rs1)
         | Evolve action \<Rightarrow>
             if action \<ge> required_points (player st1)
             then let p = player st1;
                      p1 = p\<lparr>level := level p + 1\<rparr>;
                      p2 = p1\<lparr>points := points p1 - action\<rparr>
                  in (case obtain_new_feature p2 rs1 of (p3, rs2) \<Rightarrow> (st1\<lparr>player := p3\<rparr>, rs2))
             else (st1, rs1)
         | Restart \<Rightarrow>
             (case Player_init rs1 of (p, rs2) \<Rightarrow>
                (st1\<lparr>player := p, grid := Grid_init tiles_row tiles_col,
                     herb_foods := 0, carn_foods := 0,
                     pending_task := None, event := None, event_timer := 0\<rparr>, rs2))))"

subsection \<open>on_key_release\<close>

datatype key = Key_W | Key_S | Key_D | Key_A | Key_G | Key_R | Key_other

text \<open>An entry of the \<open>actions\<close> dictionary: a direction with its amount.\<close>

datatype action = Move axis int | Do_evolve int | Do_restart

definition actions :: "Controller \<Rightarrow> key \<Rightarrow> action option" where
  "actions st k =
     (case k of
        Key_W \<Rightarrow> Some (Move Ax_y (speed (features (player st))))
      | Key_S \<Rightarrow> Some (Move Ax_y (- speed (features (player st))))
      | Key_D \<Rightarrow> Some (Move Ax_x (speed (features (player st))))
      | Key_A \<Rightarrow> Some (Move Ax_x (- speed (features (player st))))
      | Key_G \<Rightarrow> Some (Do_evolve (points (player st)))
      | Key_R \<Rightarrow> Some Do_restart
      | Key_other \<Rightarrow> None)"

text \<open>
  \<^verbatim>\<open>cell.update_coords(direction, amount)\<close> at the end of the loop body: the cell is the
  object taken from position \<open>i\<close>; \<^verbatim>\<open>pop()\<close> removes the last cell only, so the object is
  still at position \<open>i\<close> unless it was the one removed, and then the write is to an object
  the list no longer holds.
\<close>

definition move_cell :: "axis \<Rightarrow> int \<Rightarrow> nat \<Rightarrow> Controller \<Rightarrow> Controller" where
  "move_cell direction amount i st =
     (let cs = cells (player st)
      in if i < length cs
         then st\<lparr>player := (player st)\<lparr>cells := cs[i := update_coords direction amount (cs ! i)]\<rparr>\<rparr>
         else st)"

definition target :: "axis \<Rightarrow> int \<Rightarrow> Cell \<Rightarrow> int \<times> int" where
  "target direction amount cell =
     (case direction of
        Ax_y \<Rightarrow> (cell_x cell, cell_y cell + amount)
      | Ax_x \<Rightarrow> (cell_x cell + amount, cell_y cell))"

text \<open>
  The loop \<^verbatim>\<open>for cell in self.player.cells\<close> for a direction \<open>x\<close> or \<open>y\<close>, under
  \<^verbatim>\<open>suppress(IndexError)\<close>: the list iterator keeps a position \<open>i\<close> and stops when it
  reaches the current length; an IndexError from \<^verbatim>\<open>get_block\<close> ends the loop and keeps
  the state as it is then.
\<close>

function cells_loop :: "axis \<Rightarrow> int \<Rightarrow> nat \<Rightarrow> Controller \<Rightarrow> rng \<Rightarrow> Controller \<times> rng" where
  "cells_loop direction amount i st rs =
     (if i < length (cells (player st))
      then (case target direction amount (cells (player st) ! i) of (cx, cy) \<Rightarrow>
              (case get_block cx cy (grid st) of
                 Inl e \<Rightarrow> (st, rs)
               | Inr current \<Rightarrow>
                   cells_loop direction amount (Suc i)
                     (move_cell direction amount i (fst (update_player (Tile current cx cy) st rs)))
                     (snd (update_player (Tile current cx cy) st rs))))
      else (st, rs))"
  by pat_completeness auto
termination
proof (relation "measure (\<lambda>(direction, amount, i, st, rs). length (cells (player st)) - i)")
  show "wf (measure (\<lambda>(direction, amount, i, st, rs). length (cells (player st)) - i))"
    by simp
next
  fix direction :: axis and amount :: int and i :: nat and st :: Controller and rs :: rng
    and cx cy current :: int
  assume i: "i < length (cells (player st))"
  have "length (cells (player (fst (update_player (Tile current cx cy) st rs))))
          \<le> length (cells (player st))"
    by (auto simp: update_player_def cell_death_def Let_def split: prod.splits)
  then have "length (cells (player (move_cell direction amount i
                (fst (update_player (Tile current cx cy) st rs))))) \<le> length (cells (player st))"
    by (simp add: move_cell_def Let_def)
  with i show "((direction, amount, Suc i,
                 move_cell direction amount i (fst (update_player (Tile current cx cy) st rs)),
                 snd (update_player (Tile current cx cy) st rs)),
                (direction, amount, i, st, rs))
               \<in> measure (\<lambda>(direction, amount, i, st, rs). length (cells (player st)) - i)"
    by simp
qed

declare cells_loop.simps [simp del]

text \<open>
  The body of \<^verbatim>\<open>if actions.get(key)\<close>. For \<open>evolve\<close> and \<open>restart\<close> the loop calls
  \<^verbatim>\<open>update_player(direction, amount)\<close> at its first cell and returns.
\<close>

definition run_action :: "action \<Rightarrow> Controller \<Rightarrow> rng \<Rightarrow> Controller \<times> rng" where
  "run_action a st rs =
     (case a of
        Move direction amount \<Rightarrow> cells_loop direction amount 0 st rs
      | Do_evolve amount \<Rightarrow>
          if cells (player st) = [] then (st, rs) else update_player (Evolve amount) st rs
      | Do_restart \<Rightarrow>
          if cells (player st) = [] then (st, rs) else update_player Restart st rs)"

text \<open>\<^verbatim>\<open>if self.pending_task: getattr(self.grid, task)(*args)\<close>; the task is not cleared.\<close>

definition run_pending_task :: "Controller \<Rightarrow> error + Controller" where
  "run_pending_task st =
     (case pending_task st of
        None \<Rightarrow> Inr st
      | Some (cx, cy, action) \<Rightarrow>
          (case set_block cx cy action (grid st) of
             Inl e \<Rightarrow> Inl e
           | Inr g \<Rightarrow> Inr (st\<lparr>grid := g\<rparr>)))"

definition on_key_release :: "key \<Rightarrow> Controller \<Rightarrow> rng \<Rightarrow> error + (Controller \<times> rng)" where
  "on_key_release k st rs =
     (case draw_player 0 st rs of
        Inl e \<Rightarrow> Inl e
      | Inr (st1, rs1) \<Rightarrow>
          (let act = actions st1 k
           in case run_pending_task st1 of
                Inl e \<Rightarrow> Inl e
              | Inr st2 \<Rightarrow>
                  (case act of
                     None \<Rightarrow> Inr (st2, rs1)
                   | Some a \<Rightarrow> Inr (run_action a st2 rs1))))"

text \<open>The states the game can be in: the initial one, after any keys and frames.\<close>

inductive reachable :: "Controller \<Rightarrow> bool" where
  reach_init: "reachable (fst (Controller_init rs))"
| reach_key: "reachable st \<Longrightarrow> on_key_release k st rs = Inr (st', rs') \<Longrightarrow> reachable st'"
| reach_draw: "reachable st \<Longrightarrow> on_draw st rs = Inr (st', rs') \<Longrightarrow> reachable st'"

subsection \<open>Predicates used in the statements\<close>

text \<open>
  A grid object is well formed when its row references are distinct and point into the
  store.
\<close>

definition grid_wf :: "GridObj \<Rightarrow> bool" where
  "grid_wf g \<longleftrightarrow> distinct (data g) \<and> (\<forall>a \<in> set (data g). a < length (store g))"

text \<open>Whether the roll at the head of \<^verbatim>\<open>update_player\<close> removes a cell.\<close>

definition death_hits :: "Controller \<Rightarrow> rng \<Rightarrow> bool" where
  "death_hits st rs \<longleftrightarrow> fst (randrange 0 250 rs) = 66 \<and> 1 < length (cells (player st))"

text \<open>The food multiplier and the speed are at least 1.\<close>

definition features_ok :: "Features \<Rightarrow> bool" where
  "features_ok f \<longleftrightarrow> 1 \<le> food f \<and> 1 \<le> speed f"

text \<open>
  The indices that a list of length \<open>n\<close> accepts, and the invariant that makes every
  grid access of the handlers succeed: the grid has its configured dimensions, the player
  has a cell, and the cells and the pending task hold indices the grid accepts.
\<close>

definition index_ok :: "nat \<Rightarrow> int \<Rightarrow> bool" where
  "index_ok n i \<longleftrightarrow> - int n \<le> i \<and> i < int n"

definition cell_ok :: "Cell \<Rightarrow> bool" where
  "cell_ok c \<longleftrightarrow> index_ok tiles_col (cell_x c) \<and> index_ok tiles_row (cell_y c)"

definition grid_shape :: "Grid \<Rightarrow> bool" where
  "grid_shape g \<longleftrightarrow> map length g = replicate tiles_row tiles_col"

definition controller_ok :: "Controller \<Rightarrow> bool" where
  "controller_ok st \<longleftrightarrow>
     grid_shape (grid st) \<and> cells (player st) \<noteq> [] \<and> list_all cell_ok (cells (player st)) \<and>
     (case pending_task st of
        None \<Rightarrow> True
      | Some (cx, cy, action) \<Rightarrow> index_ok tiles_col cx \<and> index_ok tiles_row cy)"

text \<open>The state a key release leaves, when it raises nothing.\<close>

definition after_key :: "key \<Rightarrow> Controller \<Rightarrow> rng \<Rightarrow> Controller option" where
  "after_key k st rs = (case on_key_release k st rs of Inl e \<Rightarrow> None | Inr (st', rs') \<Rightarrow> Some st')"

text \<open>The state a frame leaves, when it raises nothing.\<close>

definition after_draw :: "Controller \<Rightarrow> rng \<Rightarrow> Controller option" where
  "after_draw st rs = (case on_draw st rs of Inl e \<Rightarrow> None | Inr (st', rs') \<Rightarrow> Some st')"

text \<open>
  The attempts of \<^verbatim>\<open>obtain_cell\<close>, numbered from 0. Every attempt draws twice, so
  attempt \<open>k\<close> takes its cell from the random numbers left after \<open>2 * k\<close> draws and its
  axis from those left after one more. Its candidate is the chosen cell moved one step up
  the chosen axis; the candidate is rejected when the collision test that the source
  makes answers yes, or when it is not below the grid's upper bounds.
\<close>

definition chosen_cell :: "Player \<Rightarrow> rng \<Rightarrow> nat \<Rightarrow> Cell" where
  "chosen_cell p rs k = fst (choice (cells p) (drop (2 * k) rs))"

definition chosen_axis :: "rng \<Rightarrow> nat \<Rightarrow> axis" where
  "chosen_axis rs k = fst (choice [Ax_x, Ax_y] (drop (2 * k + 1) rs))"

definition candidate :: "Player \<Rightarrow> rng \<Rightarrow> nat \<Rightarrow> Cell" where
  "candidate p rs k = neighbour (chosen_axis rs k) (chosen_cell p rs k)"

definition rejected :: "Player \<Rightarrow> Cell \<Rightarrow> bool" where
  "rejected p cell \<longleftrightarrow>
     cell_collision (cell_x cell) (cell_y cell) p \<or>
     \<not> (cell_x cell < int tiles_col \<and> cell_y cell < int tiles_row)"

text \<open>
  The read that the loop of a directional command makes for the cell at position \<open>m\<close>,
  and whether a tile value is a food kind that the player's feeding type turns down.
\<close>

definition tile_ahead :: "axis \<Rightarrow> int \<Rightarrow> Controller \<Rightarrow> nat \<Rightarrow> error + int" where
  "tile_ahead direction amount st m =
     (case target direction amount (cells (player st) ! m) of (cx, cy) \<Rightarrow> get_block cx cy (grid st))"

definition rejects :: "Controller \<Rightarrow> int \<Rightarrow> bool" where
  "rejects st v \<longleftrightarrow> (v = 3 \<or> v = 2) \<and> \<not> feeding_passes (feeding (features (player st))) v"

text \<open>How many of the first \<open>n\<close> rolls that are made from \<open>rs\<close> give 66.\<close>

definition rolls_hit :: "rng \<Rightarrow> nat \<Rightarrow> nat" where
  "rolls_hit rs n = length (filter (\<lambda>m. fst (randrange 0 250 (drop m rs)) = 66) [0..<n])"

text \<open>Between two key releases only frames are drawn.\<close>

inductive frames :: "Controller \<Rightarrow> Controller \<Rightarrow> bool" where
  frames_none: "frames st st"
| frames_draw: "frames st st1 \<Longrightarrow> on_draw st1 rs = Inr (st2, rs') \<Longrightarrow> frames st st2"

text \<open>
  The state that one turn of the loop of a directional command leaves: the cell at
  position \<open>i\<close> is resolved against the tile value \<open>v\<close> read at \<open>(cx, cy)\<close> and moved.
\<close>

abbreviation after_turn ::
  "axis \<Rightarrow> int \<Rightarrow> nat \<Rightarrow> int \<Rightarrow> int \<Rightarrow> int \<Rightarrow> Controller \<Rightarrow> rng \<Rightarrow> Controller" where
  "after_turn direction amount i v cx cy st rs \<equiv>
     move_cell direction amount i (fst (update_player (Tile v cx cy) st rs))"

text \<open>A run of key releases, each with the random numbers it is given.\<close>

fun run_keys :: "(key \<times> rng) list \<Rightarrow> Controller \<Rightarrow> Controller option" where
  "run_keys [] st = Some st"
| "run_keys ((k, rs) # ks) st =
     (case after_key k st rs of None \<Rightarrow> None | Some st' \<Rightarrow> run_keys ks st')"

subsection \<open>Example states\<close>

text \<open>A one-cell player of level 1 on an empty grid, with both food counters at the cap.\<close>

definition start_player :: Player where
  "start_player =
     \<lparr>cells = [Cell_init 0 0], points = 0, level = 1, loses = 0, features = Features_init\<rparr>"

definition full_state :: "Player \<Rightarrow> Controller" where
  "full_state p =
     \<lparr>grid = Grid_init tiles_row tiles_col, player = p, herb_foods = 10, carn_foods = 10,
      pending_task = None, event = None, event_timer = 0\<rparr>"

text \<open>
  A game played from its start. An omnivore eats one herb on each of four moves to the
  right; the first spawn also puts a herb on column 5 of row 1. The player then evolves
  into a carnivore of level 2 with cells (4, 0) and (5, 0) and no points.
\<close>

definition new_omnivore :: Controller where
  "new_omnivore = fst (Controller_init [2])"

definition grown_keys :: "(key \<times> rng) list" where
  "grown_keys =
     [(Key_D, [1, 0, 5, 1]), (Key_D, [2, 0]), (Key_D, [3, 0]), (Key_D, [4, 0]),
      (Key_G, [0, 0, 0, 0, 1, 1, 0, 0])]"

definition grown_game :: Controller where
  "grown_game = the (run_keys grown_keys new_omnivore)"

section \<open>Properties\<close>

subsection \<open>Basic facts\<close>

lemma randbelow_less: "0 < n \<Longrightarrow> fst (randbelow n rs) < n"
  by (cases rs) simp_all

lemma randrange_bounds:
  assumes "start < stop"
  shows "start \<le> fst (randrange start stop rs)" and "fst (randrange start stop rs) < stop"
proof -
  from assms have "0 < nat (stop - start)" by simp
  then have "fst (randbelow (nat (stop - start)) rs) < nat (stop - start)"
    by (rule randbelow_less)
  then show "start \<le> fst (randrange start stop rs)" and "fst (randrange start stop rs) < stop"
    by (auto simp: randrange_def split: prod.splits)
qed

lemma choice_in_set: "seq \<noteq> [] \<Longrightarrow> fst (choice seq rs) \<in> set seq"
  using randbelow_less [of "length seq" rs]
  by (auto simp: choice_def split: prod.splits)

lemma cell_collision_loop_iff:
  "cell_collision_loop row col cs \<longleftrightarrow> (\<exists>c \<in> set cs. cell_y c = row \<and> cell_x c = col)"
  by (induction cs) auto

lemma cell_collision_iff:
  "cell_collision row col p \<longleftrightarrow> (\<exists>c \<in> set (cells p). cell_y c = row \<and> cell_x c = col)"
  by (simp add: cell_collision_def cell_collision_loop_iff)

lemma obtain_cell_loop_frame:
  "points (fst (obtain_cell_loop n p rs)) = points p \<and>
   level (fst (obtain_cell_loop n p rs)) = level p \<and>
   loses (fst (obtain_cell_loop n p rs)) = loses p \<and>
   features (fst (obtain_cell_loop n p rs)) = features p"
  by (induction n arbitrary: rs) (auto simp: Let_def split: prod.splits)

lemma obtain_cell_frame:
  "points (fst (obtain_cell p rs)) = points p \<and>
   level (fst (obtain_cell p rs)) = level p \<and>
   loses (fst (obtain_cell p rs)) = loses p \<and>
   features (fst (obtain_cell p rs)) = features p"
  by (simp add: obtain_cell_def obtain_cell_loop_frame)

subsection \<open>Growth\<close>

lemma snd_choice: "snd (choice seq rs) = tl rs"
  by (cases rs) (simp_all add: choice_def)

lemma candidate_0: "candidate p rs 0 = neighbour (fst (choice [Ax_x, Ax_y] (tl rs))) (fst (choice (cells p) rs))"
  by (simp add: candidate_def chosen_cell_def chosen_axis_def drop_Suc)

lemma candidate_Suc: "candidate p rs (Suc k) = candidate p (tl (tl rs)) k"
  by (simp add: candidate_def chosen_cell_def chosen_axis_def drop_Suc drop_tl)

lemma obtain_cell_loop_step:
  "obtain_cell_loop (Suc n) p rs =
     (if rejected p (candidate p rs 0) then obtain_cell_loop n p (tl (tl rs))
      else (p\<lparr>cells := cells p @ [candidate p rs 0]\<rparr>, tl (tl rs)))"
proof -
  obtain c rs1 where c: "choice (cells p) rs = (c, rs1)"
    by (cases "choice (cells p) rs")
  obtain through rs2 where t: "choice [Ax_x, Ax_y] rs1 = (through, rs2)"
    by (cases "choice [Ax_x, Ax_y] rs1")
  from c snd_choice [of "cells p" rs] have rs1: "rs1 = tl rs" by simp
  from t snd_choice [of "[Ax_x, Ax_y]" rs1] rs1 have rs2: "rs2 = tl (tl rs)" by simp
  from c t rs1 have "candidate p rs 0 = neighbour through c"
    by (simp add: candidate_0)
  with c t rs2 show ?thesis
    by (auto simp: rejected_def Let_def)
qed

lemma obtain_cell_loop_first_accepted:
  "(\<forall>k<n. rejected p (candidate p rs k)) \<and> fst (obtain_cell_loop n p rs) = p \<or>
   (\<exists>k<n. (\<forall>j<k. rejected p (candidate p rs j)) \<and> \<not> rejected p (candidate p rs k) \<and>
           fst (obtain_cell_loop n p rs) = p\<lparr>cells := cells p @ [candidate p rs k]\<rparr>)"
proof (induction n arbitrary: rs)
  case 0
  show ?case by simp
next
  case (Suc n)
  show ?case
  proof (cases "rejected p (candidate p rs 0)")
    case False
    then have "fst (obtain_cell_loop (Suc n) p rs) = p\<lparr>cells := cells p @ [candidate p rs 0]\<rparr>"
      by (simp add: obtain_cell_loop_step del: obtain_cell_loop.simps)
    with False show ?thesis by auto
  next
    case True
    then have step: "obtain_cell_loop (Suc n) p rs = obtain_cell_loop n p (tl (tl rs))"
      by (simp add: obtain_cell_loop_step del: obtain_cell_loop.simps)
    have below: "(\<forall>j<Suc k. rejected p (candidate p rs j)) \<longleftrightarrow>
                   (\<forall>j<k. rejected p (candidate p (tl (tl rs)) j))" for k
      using True by (auto simp: less_Suc_eq_0_disj candidate_Suc)
    from Suc.IH [of "tl (tl rs)"] show ?thesis
    proof (elim disjE conjE exE)
      assume "\<forall>k<n. rejected p (candidate p (tl (tl rs)) k)"
        and "fst (obtain_cell_loop n p (tl (tl rs))) = p"
      with below [of n] step show ?thesis by simp
    next
      fix k
      assume k: "k < n" and before: "\<forall>j<k. rejected p (candidate p (tl (tl rs)) j)"
        and here: "\<not> rejected p (candidate p (tl (tl rs)) k)"
        and res: "fst (obtain_cell_loop n p (tl (tl rs))) = p\<lparr>cells := cells p @ [candidate p (tl (tl rs)) k]\<rparr>"
      from k have "Suc k < Suc n" by simp
      moreover from before below [of k] have "\<forall>j<Suc k. rejected p (candidate p rs j)" by simp
      moreover from here have "\<not> rejected p (candidate p rs (Suc k))" by (simp add: candidate_Suc)
      moreover from res step
      have "fst (obtain_cell_loop (Suc n) p rs) = p\<lparr>cells := cells p @ [candidate p rs (Suc k)]\<rparr>"
        by (simp add: candidate_Suc)
      ultimately show ?thesis by blast
    qed
  qed
qed

lemma chosen_cell_member: "cells p \<noteq> [] \<Longrightarrow> chosen_cell p rs k \<in> set (cells p)"
  by (simp add: chosen_cell_def choice_in_set)

lemma candidate_plus_one:
  "candidate p rs k = Cell_init (cell_x (chosen_cell p rs k) + 1) (cell_y (chosen_cell p rs k)) \<and>
     chosen_axis rs k = Ax_x \<or>
   candidate p rs k = Cell_init (cell_x (chosen_cell p rs k)) (cell_y (chosen_cell p rs k) + 1) \<and>
     chosen_axis rs k = Ax_y"
  by (cases "chosen_axis rs k") (simp_all add: candidate_def neighbour_def)

text \<open>
  C9: the growth search appends at most one cell, and the cell it appends is the candidate
  of the first attempt that is not rejected: the cell chosen in that attempt, which is one
  of the player's cells, moved by +1 along \<open>x\<close> when the chosen axis is \<open>x\<close> and by +1
  along \<open>y\<close> when it is \<open>y\<close>, the other coordinate kept. When every attempt is rejected
  the cells are left as they are. No cell is ever appended below the chosen cell on an
  axis.
\<close>

theorem obtain_cell_appends_plus_one_neighbour:
  "cells (fst (obtain_cell p rs)) = cells p \<and>
     (\<forall>k<length (cells p). rejected p (candidate p rs k)) \<or>
   (\<exists>k<length (cells p).
      (\<forall>j<k. rejected p (candidate p rs j)) \<and> \<not> rejected p (candidate p rs k) \<and>
      cells (fst (obtain_cell p rs)) = cells p @ [candidate p rs k] \<and>
      chosen_cell p rs k \<in> set (cells p) \<and>
      (chosen_axis rs k = Ax_x \<and>
         candidate p rs k = Cell_init (cell_x (chosen_cell p rs k) + 1) (cell_y (chosen_cell p rs k)) \<or>
       chosen_axis rs k = Ax_y \<and>
         candidate p rs k = Cell_init (cell_x (chosen_cell p rs k)) (cell_y (chosen_cell p rs k) + 1)))"
proof -
  from obtain_cell_loop_first_accepted [of "length (cells p)" p rs]
  consider "\<forall>k<length (cells p). rejected p (candidate p rs k)" and "fst (obtain_cell p rs) = p"
    | k where "k < length (cells p)" and "\<forall>j<k. rejected p (candidate p rs j)"
        and "\<not> rejected p (candidate p rs k)"
        and "fst (obtain_cell p rs) = p\<lparr>cells := cells p @ [candidate p rs k]\<rparr>"
    by (auto simp: obtain_cell_def)
  then show ?thesis
  proof cases
    case 1
    then show ?thesis by simp
  next
    case (2 k)
    from 2(1) have "cells p \<noteq> []" by auto
    then have "chosen_cell p rs k \<in> set (cells p)" by (rule chosen_cell_member)
    with 2 candidate_plus_one [of p rs k] show ?thesis
      by (intro disjI2 exI [of _ k]) auto
  qed
qed

text \<open>
  From cells (0, 0) and (0, 1): attempt 0 chooses (0, 0) and \<open>x\<close>, and its candidate (1, 0)
  is rejected; attempt 1 chooses (0, 1) and \<open>y\<close>, and (0, 2) is appended.
\<close>

theorem obtain_cell_appends_plus_one_neighbour_witness:
  "rejected (start_player\<lparr>cells := [Cell_init 0 0, Cell_init 0 1]\<rparr>)
     (candidate (start_player\<lparr>cells := [Cell_init 0 0, Cell_init 0 1]\<rparr>) [0, 0, 1, 1] 0) \<and>
   chosen_cell (start_player\<lparr>cells := [Cell_init 0 0, Cell_init 0 1]\<rparr>) [0, 0, 1, 1] 1 = Cell_init 0 1 \<and>
   chosen_axis [0, 0, 1, 1] 1 = Ax_y \<and>
   cells (fst (obtain_cell (start_player\<lparr>cells := [Cell_init 0 0, Cell_init 0 1]\<rparr>) [0, 0, 1, 1]))
     = [Cell_init 0 0, Cell_init 0 1, Cell_init 0 2]"
proof -
  let ?p = "start_player\<lparr>cells := [Cell_init 0 0, Cell_init 0 1]\<rparr>"
  let ?rs = "[0, 0, 1, 1] :: rng"
  have r0: "rejected ?p (candidate ?p ?rs 0)" by code_simp
  have a1: "\<not> rejected ?p (candidate ?p ?rs 1)" by code_simp
  have c1: "candidate ?p ?rs 1 = Cell_init 0 2" by code_simp
  have ch: "chosen_cell ?p ?rs 1 = Cell_init 0 1" "chosen_axis ?rs 1 = Ax_y" by code_simp+
  have len: "length (cells ?p) = 2" by simp
  from obtain_cell_appends_plus_one_neighbour [of ?p ?rs]
  consider "\<forall>k<length (cells ?p). rejected ?p (candidate ?p ?rs k)"
    | k where "k < length (cells ?p)" and "\<not> rejected ?p (candidate ?p ?rs k)"
        and "cells (fst (obtain_cell ?p ?rs)) = cells ?p @ [candidate ?p ?rs k]"
    by blast
  then have "cells (fst (obtain_cell ?p ?rs)) = cells ?p @ [candidate ?p ?rs 1]"
  proof cases
    case 1
    with len a1 show ?thesis by (auto simp: numeral_2_eq_2)
  next
    case (2 k)
    from 2(1) len have "k = 0 \<or> k = 1" by auto
    with 2(2) r0 have "k = 1" by auto
    with 2(3) show ?thesis by simp
  qed
  with c1 have "cells (fst (obtain_cell ?p ?rs)) = [Cell_init 0 0, Cell_init 0 1, Cell_init 0 2]"
    by simp
  with r0 ch show ?thesis by simp
qed

subsection \<open>The grid: rows are separate objects\<close>

lemma Grid_rows_wf: "grid_wf g \<Longrightarrow> grid_wf (Grid_rows n col g)"
proof (induction n arbitrary: g)
  case 0
  then show ?case by simp
next
  case (Suc n)
  from Suc.prems
  have "grid_wf (g\<lparr>data := data g @ [length (store g)], store := store g @ [replicate col 0]\<rparr>)"
    by (auto simp: grid_wf_def less_Suc_eq)
  then show ?case by (simp add: Suc.IH)
qed

lemma GridObj_init_wf: "grid_wf (GridObj_init row col)"
  unfolding GridObj_init_def by (rule Grid_rows_wf) (simp add: grid_wf_def)

lemma obj_set_block_shape:
  assumes "obj_set_block col row val g = Inr g'"
  shows "data g' = data g" and "length (store g') = length (store g)"
  using assms
  by (auto simp: obj_set_block_def Let_def split: option.splits)

lemma obj_set_block_wf:
  assumes "grid_wf g" and "obj_set_block col row val g = Inr g'"
  shows "grid_wf g'"
proof -
  from obj_set_block_shape [OF assms(2)] assms(1) show ?thesis
    by (simp add: grid_wf_def)
qed

lemma grid_built_wf: "grid_built g \<Longrightarrow> grid_wf g"
  by (induction rule: grid_built.induct) (auto intro: GridObj_init_wf obj_set_block_wf)

lemma py_index_nonneg: "0 \<le> i \<Longrightarrow> py_index xs i = (if i < int (length xs) then Some (nat i) else None)"
  by (simp add: py_index_def Let_def)

lemma py_index_less: "py_index xs i = Some k \<Longrightarrow> k < length xs"
  by (auto simp: py_index_def Let_def split: if_splits)

text \<open>
  C10: on a grid as the constructor builds it (and as any earlier writes leave it), a
  \<^verbatim>\<open>set_block(col, row, value)\<close> at an in-range coordinate succeeds, the tile at
  \<open>(row, col)\<close> then reads \<open>value\<close>, and a read at any other coordinate gives what it
  gave before: the rows are separate list objects, so the write to one row is seen
  through no other row's reference.
\<close>

theorem set_block_changes_one_tile:
  assumes built: "grid_built g"
    and row: "0 \<le> row" "row < int (length (data g))"
    and col: "0 \<le> col" "col < int (length (store g ! (data g ! nat row)))"
  shows "\<exists>g'. obj_set_block col row val g = Inr g' \<and>
           obj_get_block col row g' = Inr val \<and>
           (\<forall>r c. 0 \<le> r \<and> 0 \<le> c \<and> (r, c) \<noteq> (row, col) \<longrightarrow>
                  obj_get_block c r g' = obj_get_block c r g)"
proof -
  let ?a = "data g ! nat row"
  let ?g' = "g\<lparr>store := (store g)[?a := (store g ! ?a)[nat col := val]]\<rparr>"
  from built have wf: "grid_wf g" by (rule grid_built_wf)
  from row have rlt: "nat row < length (data g)" by simp
  with wf have alt: "?a < length (store g)" by (simp add: grid_wf_def)
  have set: "obj_set_block col row val g = Inr ?g'"
    using row col by (simp add: obj_set_block_def py_index_nonneg Let_def)
  have same: "obj_get_block col row ?g' = Inr val"
    using row col alt by (simp add: obj_get_block_def py_index_nonneg Let_def)
  have other: "obj_get_block c r ?g' = obj_get_block c r g"
    if r: "0 \<le> r" and c: "0 \<le> c" and ne: "(r, c) \<noteq> (row, col)" for r c
  proof (cases "r < int (length (data g))")
    case False
    with r show ?thesis by (simp add: obj_get_block_def py_index_nonneg)
  next
    case True
    with r have r': "nat r < length (data g)" by simp
    show ?thesis
    proof (cases "r = row")
      case True
      with ne have "nat c \<noteq> nat col" using c col by simp
      with True r row alt show ?thesis
        by (simp add: obj_get_block_def py_index_nonneg Let_def c)
    next
      case False
      with r row have "nat r \<noteq> nat row" by simp
      with wf r' rlt have "?a \<noteq> data g ! nat r"
        by (simp add: grid_wf_def nth_eq_iff_index_eq)
      with r True show ?thesis
        by (simp add: obj_get_block_def py_index_nonneg Let_def split: option.splits)
    qed
  qed
  from set same other show ?thesis by blast
qed

theorem set_block_changes_one_tile_witness:
  "\<exists>g'. obj_set_block 1 0 3 (GridObj_init 2 2) = Inr g' \<and>
        obj_get_block 1 0 g' = Inr 3 \<and>
        obj_get_block 1 1 g' = obj_get_block 1 1 (GridObj_init 2 2) \<and>
        obj_get_block 0 0 g' = obj_get_block 0 0 (GridObj_init 2 2)"
proof -
  have "\<exists>g'. obj_set_block 1 0 3 (GridObj_init 2 2) = Inr g' \<and>
           obj_get_block 1 0 g' = Inr 3 \<and>
           (\<forall>r c. 0 \<le> r \<and> 0 \<le> c \<and> (r, c) \<noteq> (0, 1) \<longrightarrow>
                  obj_get_block c r g' = obj_get_block c r (GridObj_init 2 2))"
    by (rule set_block_changes_one_tile [OF built_init])
       (simp_all add: GridObj_init_def numeral_2_eq_2)
  then obtain g' where "obj_set_block 1 0 3 (GridObj_init 2 2) = Inr g'"
    and "obj_get_block 1 0 g' = Inr 3"
    and rest: "\<And>r c. 0 \<le> r \<and> 0 \<le> c \<and> (r, c) \<noteq> (0, 1) \<Longrightarrow>
                 obj_get_block c r g' = obj_get_block c r (GridObj_init 2 2)"
    by blast
  moreover from rest [of 1 1] have "obj_get_block 1 1 g' = obj_get_block 1 1 (GridObj_init 2 2)"
    by simp
  moreover from rest [of 0 0] have "obj_get_block 0 0 g' = obj_get_block 0 0 (GridObj_init 2 2)"
    by simp
  ultimately show ?thesis by blast
qed

text \<open>
  The value model of the grid used by the controller is what the object model stands for:
  the constructor and both accessors agree through \<open>grid_of\<close>.
\<close>

lemma grid_of_Grid_rows:
  "grid_wf g \<Longrightarrow> grid_of (Grid_rows n col g) = grid_of g @ replicate n (replicate col 0)"
proof (induction n arbitrary: g)
  case 0
  then show ?case by simp
next
  case (Suc n)
  let ?g = "g\<lparr>data := data g @ [length (store g)], store := store g @ [replicate col 0]\<rparr>"
  from Suc.prems have wf: "grid_wf ?g"
    by (auto simp: grid_wf_def less_Suc_eq)
  from Suc.prems have "grid_of ?g = grid_of g @ [replicate col 0]"
    by (auto simp: grid_of_def grid_wf_def nth_append)
  with Suc.IH [OF wf] show ?case
    by (simp add: replicate_app_Cons_same)
qed

lemma grid_of_init: "grid_of (GridObj_init row col) = Grid_init row col"
proof -
  have "grid_wf \<lparr>data = [], store = []\<rparr>" by (simp add: grid_wf_def)
  from grid_of_Grid_rows [OF this] show ?thesis
    by (simp add: GridObj_init_def Grid_init_def grid_of_def)
qed

lemma py_index_grid_of: "py_index (grid_of g) i = py_index (data g) i"
  by (simp add: py_index_def grid_of_def)

lemma grid_of_get_block: "obj_get_block col row g = get_block col row (grid_of g)"
proof (cases "py_index (data g) row")
  case None
  then show ?thesis
    by (simp add: obj_get_block_def get_block_def py_index_grid_of)
next
  case (Some r)
  then have "r < length (data g)" by (rule py_index_less)
  then have "grid_of g ! r = store g ! (data g ! r)"
    by (simp add: grid_of_def)
  with Some show ?thesis
    by (simp add: obj_get_block_def get_block_def py_index_grid_of Let_def
             split: option.splits)
qed

lemma grid_of_set_block:
  assumes "grid_wf g"
  shows "map_sum id grid_of (obj_set_block col row val g) = set_block col row val (grid_of g)"
proof (cases "py_index (data g) row")
  case None
  then show ?thesis
    by (simp add: obj_set_block_def set_block_def py_index_grid_of)
next
  case (Some r)
  then have r: "r < length (data g)" by (rule py_index_less)
  have ix: "py_index (grid_of g) row = Some r"
    using Some by (simp add: py_index_grid_of)
  have row_r: "grid_of g ! r = store g ! (data g ! r)"
    using r by (simp add: grid_of_def)
  show ?thesis
  proof (cases "py_index (store g ! (data g ! r)) col")
    case None
    with Some ix row_r show ?thesis
      by (simp add: obj_set_block_def set_block_def Let_def)
  next
    case (Some c)
    have "map (\<lambda>a. (store g)[data g ! r := new] ! a) (data g) = (grid_of g)[r := new]" for new
    proof (rule nth_equalityI)
      show "length (map (\<lambda>a. (store g)[data g ! r := new] ! a) (data g)) = length ((grid_of g)[r := new])"
        by (simp add: grid_of_def)
    next
      fix i assume "i < length (map (\<lambda>a. (store g)[data g ! r := new] ! a) (data g))"
      then have i: "i < length (data g)" by simp
      with assms r have "data g ! i = data g ! r \<longleftrightarrow> i = r"
        by (simp add: grid_wf_def nth_eq_iff_index_eq)
      moreover from assms r have "data g ! r < length (store g)"
        by (simp add: grid_wf_def)
      ultimately show "map (\<lambda>a. (store g)[data g ! r := new] ! a) (data g) ! i = (grid_of g)[r := new] ! i"
        using i by (auto simp: grid_of_def nth_list_update)
    qed
    with Some \<open>py_index (data g) row = Some r\<close> ix row_r show ?thesis
      by (simp add: obj_set_block_def set_block_def Let_def grid_of_def)
  qed
qed

subsection \<open>What drawing leaves alone\<close>

lemma set_block_shape: "set_block col row val g = Inr g' \<Longrightarrow> map length g' = map length g"
  by (auto simp: set_block_def map_update list_update_same_conv dest: py_index_less
           split: option.splits)

lemma set_block_get_block: "set_block col row val g = Inr g' \<Longrightarrow> get_block col row g' = Inr val"
  by (auto simp: set_block_def get_block_def py_index_def Let_def split: option.splits if_splits)

lemma get_block_shape:
  assumes "map length g' = map length g"
  shows "(\<exists>v. get_block col row g' = Inr v) \<longleftrightarrow> (\<exists>v. get_block col row g = Inr v)"
proof -
  from assms have len: "length g' = length g"
    by (rule map_eq_imp_length_eq)
  have "length (g' ! r) = length (g ! r)" if "r < length g" for r
    using assms that len by (metis nth_map)
  with len show ?thesis
    by (auto simp: get_block_def py_index_def Let_def split: option.splits if_splits)
qed

lemma stamp_cells_shape: "stamp_cells cs val g = Inr g' \<Longrightarrow> map length g' = map length g"
proof (induction cs arbitrary: g)
  case Nil
  then show ?case by simp
next
  case (Cons c cs)
  then show ?case
    by (auto split: sum.splits dest: set_block_shape)
qed

lemma draw_foods_loop_frame:
  assumes "draw_foods_loop fd n increased st rs = Inr (increased', st', rs')"
  shows "player st' = player st \<and> pending_task st' = pending_task st \<and>
         herb_foods st' = herb_foods st \<and> carn_foods st' = carn_foods st \<and>
         map length (grid st') = map length (grid st)"
  using assms
proof (induction n arbitrary: increased st rs)
  case 0
  then show ?case by simp
next
  case (Suc n)
  obtain row rs1 where r: "randrange 0 (int tiles_row) rs = (row, rs1)"
    by (cases "randrange 0 (int tiles_row) rs")
  obtain col rs2 where c: "randrange 0 (int tiles_col) rs1 = (col, rs2)"
    by (cases "randrange 0 (int tiles_col) rs1")
  show ?case
  proof (cases "cell_collision row col (player st)")
    case True
    with Suc.prems r c have "draw_foods_loop fd n increased st rs2 = Inr (increased', st', rs')"
      by simp
    then show ?thesis by (rule Suc.IH)
  next
    case False
    with Suc.prems r c obtain g where g: "set_block row col fd (grid st) = Inr g"
      and rest: "draw_foods_loop fd n (increased + 1) (st\<lparr>grid := g\<rparr>) rs2 = Inr (increased', st', rs')"
      by (auto split: sum.splits)
    from Suc.IH [OF rest] set_block_shape [OF g] show ?thesis by simp
  qed
qed

lemma draw_foods_amount_frame:
  assumes "draw_foods_amount fd amount st rs = Inr (increased', st', rs')"
  shows "player st' = player st \<and> pending_task st' = pending_task st \<and>
         herb_foods st' = herb_foods st \<and> carn_foods st' = carn_foods st \<and>
         map length (grid st') = map length (grid st)"
proof (cases "amount \<le> 0")
  case True
  with assms show ?thesis by (simp add: draw_foods_amount_def)
next
  case False
  with assms show ?thesis
    by (auto simp: draw_foods_amount_def dest: draw_foods_loop_frame)
qed

lemma draw_foods_frame:
  assumes "draw_foods st rs = Inr (st', rs')"
  shows "player st' = player st \<and> pending_task st' = pending_task st \<and>
         map length (grid st') = map length (grid st)"
proof -
  from assms obtain n1 st1 rs1 n2 st2 rs2
    where a: "draw_foods_amount 2 (max_food - herb_foods st) st rs = Inr (n1, st1, rs1)"
      and b: "draw_foods_amount 3 (max_food - carn_foods st)
                (st1\<lparr>herb_foods := herb_foods st1 + n1\<rparr>) rs1 = Inr (n2, st2, rs2)"
      and c: "st' = st2\<lparr>carn_foods := carn_foods st2 + n2\<rparr>"
    by (auto simp: draw_foods_def Let_def split: sum.splits)
  from draw_foods_amount_frame [OF a] draw_foods_amount_frame [OF b] c show ?thesis
    by simp
qed

lemma draw_player_frame:
  assumes "draw_player val st rs = Inr (st', rs')"
  shows "player st' = player st \<and> pending_task st' = pending_task st \<and>
         map length (grid st') = map length (grid st)"
proof -
  from assms obtain g where g: "stamp_cells (cells (player st)) val (grid st) = Inr g"
    and d: "draw_foods (st\<lparr>grid := g\<rparr>) rs = Inr (st', rs')"
    by (auto simp: draw_player_def split: sum.splits)
  from draw_foods_frame [OF d] stamp_cells_shape [OF g] show ?thesis by simp
qed

lemma run_pending_task_frame:
  assumes "run_pending_task st = Inr st'"
  shows "player st' = player st \<and> pending_task st' = pending_task st \<and>
         map length (grid st') = map length (grid st)"
  using assms
  by (auto simp: run_pending_task_def set_block_shape split: option.splits sum.splits)

text \<open>A key release is the clearing and spawning, the pending task, then the action.\<close>

lemma on_key_release_player:
  assumes "on_key_release k st rs = Inr (st', rs')"
  obtains st2 rs1 where "player st2 = player st"
    and "pending_task st2 = pending_task st"
    and "map length (grid st2) = map length (grid st)"
    and "(st', rs') = (case actions st k of None \<Rightarrow> (st2, rs1) | Some a \<Rightarrow> run_action a st2 rs1)"
proof -
  from assms obtain st1 rs1 st2 where a: "draw_player 0 st rs = Inr (st1, rs1)"
    and b: "run_pending_task st1 = Inr st2"
    and c: "(st', rs') = (case actions st1 k of None \<Rightarrow> (st2, rs1) | Some a \<Rightarrow> run_action a st2 rs1)"
    by (auto simp: on_key_release_def Let_def split: sum.splits option.splits)
  from draw_player_frame [OF a] have "actions st1 k = actions st k"
    by (cases k) (simp_all add: actions_def)
  with draw_player_frame [OF a] run_pending_task_frame [OF b] c that [of st2 rs1]
  show thesis by simp
qed

subsection \<open>update_player\<close>

lemma snd_randrange: "snd (randrange start stop rs) = tl rs"
  by (cases rs) (simp_all add: randrange_def)

lemma cell_death_player:
  "player (fst (cell_death st rs)) =
     (if death_hits st rs
      then (player st)\<lparr>loses := loses (player st) + 1, cells := butlast (cells (player st))\<rparr>
      else player st)"
  by (simp add: cell_death_def death_hits_def Let_def split: prod.splits)

lemma cell_death_rest:
  "grid (fst (cell_death st rs)) = grid st \<and>
   herb_foods (fst (cell_death st rs)) = herb_foods st \<and>
   carn_foods (fst (cell_death st rs)) = carn_foods st \<and>
   pending_task (fst (cell_death st rs)) = pending_task st \<and>
   snd (cell_death st rs) = tl rs"
  using snd_randrange [of 0 250 rs]
  by (auto simp: cell_death_def Let_def split: prod.splits)

lemma obtain_new_feature_frame:
  "points (fst (obtain_new_feature p rs)) = points p \<and>
   level (fst (obtain_new_feature p rs)) = level p \<and>
   loses (fst (obtain_new_feature p rs)) = loses p"
  by (simp add: obtain_new_feature_def obtain_cell_frame Let_def split: prod.splits)

lemma obtain_new_feature_features_ok:
  assumes "features_ok (features p)"
  shows "features_ok (features (fst (obtain_new_feature p rs)))"
proof -
  obtain df rs1 where df: "randrange 1 4 rs = (df, rs1)"
    by (cases "randrange 1 4 rs")
  obtain ds rs2 where ds: "randrange (- 1) 2 rs1 = (ds, rs2)"
    by (cases "randrange (- 1) 2 rs1")
  obtain fd rs3 where fd: "choice Feeding_members rs2 = (fd, rs3)"
    by (cases "choice Feeding_members rs2")
  from randrange_bounds(1) [of 1 4 rs] df have "1 \<le> df" by simp
  moreover from randrange_bounds(1) [of "- 1" 2 rs1] ds have "- 1 \<le> ds" by simp
  ultimately have "features_ok (reset_zero ((features p)
      \<lparr>food := food (features p) + df, speed := speed (features p) + ds, feeding := fd\<rparr>))"
    using assms by (auto simp: features_ok_def reset_zero_def Let_def)
  with df ds fd show ?thesis
    by (simp add: obtain_new_feature_def obtain_cell_frame Let_def)
qed

lemma Player_init_features_ok: "features_ok (features (fst (Player_init rs)))"
  by (simp add: Player_init_def Features_init_def features_ok_def split: prod.splits)

lemma update_player_features_ok:
  assumes "features_ok (features (player st))"
  shows "features_ok (features (player (fst (update_player u st rs))))"
proof -
  obtain st1 rs1 where cd: "cell_death st rs = (st1, rs1)"
    by (cases "cell_death st rs")
  with cell_death_player [of st rs] have "features (player st1) = features (player st)"
    by (simp split: if_splits)
  with assms have ok: "features_ok (features (player st1))" by simp
  show ?thesis
  proof (cases u)
    case (Tile action cx cy)
    with cd ok show ?thesis
      by (simp add: update_player_def Let_def)
  next
    case (Evolve action)
    let ?p = "(player st1)\<lparr>level := level (player st1) + 1,
                points := points (player st1) - action\<rparr>"
    from ok have "features_ok (features (fst (obtain_new_feature ?p rs1)))"
      by (intro obtain_new_feature_features_ok) simp
    with Evolve cd ok show ?thesis
      by (auto simp: update_player_def Let_def split: prod.splits)
  next
    case Restart
    with cd Player_init_features_ok [of rs1] show ?thesis
      by (auto simp: update_player_def split: prod.splits)
  qed
qed

lemma update_player_Tile_features:
  "features (player (fst (update_player (Tile current cx cy) st rs))) = features (player st)"
  using cell_death_player [of st rs]
  by (auto simp: update_player_def Let_def split: prod.splits)

lemma move_cell_frame:
  "features (player (move_cell direction amount i st)) = features (player st) \<and>
   points (player (move_cell direction amount i st)) = points (player st) \<and>
   level (player (move_cell direction amount i st)) = level (player st) \<and>
   loses (player (move_cell direction amount i st)) = loses (player st) \<and>
   length (cells (player (move_cell direction amount i st))) = length (cells (player st)) \<and>
   grid (move_cell direction amount i st) = grid st \<and>
   herb_foods (move_cell direction amount i st) = herb_foods st \<and>
   carn_foods (move_cell direction amount i st) = carn_foods st \<and>
   pending_task (move_cell direction amount i st) = pending_task st"
  by (simp add: move_cell_def Let_def)

lemma cells_loop_features:
  "features (player (fst (cells_loop direction amount i st rs))) = features (player st)"
proof (induction direction amount i st rs rule: cells_loop.induct)
  case (1 direction amount i st rs)
  show ?case
  proof (cases "i < length (cells (player st))")
    case False
    then show ?thesis by (subst cells_loop.simps) simp
  next
    case True
    obtain cx cy where t: "target direction amount (cells (player st) ! i) = (cx, cy)"
      by (cases "target direction amount (cells (player st) ! i)")
    show ?thesis
    proof (cases "get_block cx cy (grid st)")
      case (Inl e)
      with True t show ?thesis by (subst cells_loop.simps) simp
    next
      case (Inr current)
      from "1.IH" [OF True t [symmetric] Inr] True t Inr show ?thesis
        by (subst cells_loop.simps) (simp add: move_cell_frame update_player_Tile_features)
    qed
  qed
qed

lemma run_action_features_ok:
  assumes "features_ok (features (player st))"
  shows "features_ok (features (player (fst (run_action a st rs))))"
  using assms
  by (cases a) (simp_all add: run_action_def cells_loop_features update_player_features_ok)

lemma on_key_release_features_ok:
  assumes "features_ok (features (player st))" and "on_key_release k st rs = Inr (st', rs')"
  shows "features_ok (features (player st'))"
proof -
  from assms(2) obtain st2 rs1 where p: "player st2 = player st"
    and r: "(st', rs') = (case actions st k of None \<Rightarrow> (st2, rs1) | Some a \<Rightarrow> run_action a st2 rs1)"
    by (rule on_key_release_player)
  show ?thesis
  proof (cases "actions st k")
    case None
    with r p assms(1) show ?thesis by simp
  next
    case (Some a)
    with r have "st' = fst (run_action a st2 rs1)" by (metis fst_conv option.simps(5))
    with p assms(1) show ?thesis by (simp add: run_action_features_ok)
  qed
qed

lemma reachable_features_ok: "reachable st \<Longrightarrow> features_ok (features (player st))"
proof (induction rule: reachable.induct)
  case (reach_init rs)
  show ?case
    using Player_init_features_ok [of rs]
    by (auto simp: Controller_init_def split: prod.splits)
next
  case (reach_key st k rs st' rs')
  then show ?case by (blast intro: on_key_release_features_ok)
next
  case (reach_draw st rs st' rs')
  from draw_player_frame [of 1 st rs st' rs'] reach_draw show ?case
    by (simp add: on_draw_def)
qed

text \<open>
  C8: in every state the game can reach, the food multiplier and the speed are at least 1:
  a new player starts with both at 1, every evolution adds 1 to 3 to the multiplier and -1
  to 1 to the speed and then resets a 0 to 1, and nothing else writes them.
\<close>

theorem features_stay_positive:
  assumes "reachable st"
  shows "1 \<le> food (features (player st)) \<and> 1 \<le> speed (features (player st))"
  using reachable_features_ok [OF assms] by (simp add: features_ok_def)

theorem features_stay_positive_witness:
  "reachable (fst (Controller_init [2])) \<and>
   1 \<le> food (features (player (fst (Controller_init [2])))) \<and>
   1 \<le> speed (features (player (fst (Controller_init [2]))))"
  using features_stay_positive [OF reach_init [of "[2]"]] reach_init [of "[2]"]
  by simp

subsection \<open>The evolve command\<close>

lemma update_player_Evolve_enough:
  assumes "required_points (player st) \<le> action"
  shows "level (player (fst (update_player (Evolve action) st rs))) = level (player st) + 1"
    and "points (player (fst (update_player (Evolve action) st rs))) = points (player st) - action"
proof -
  obtain st1 rs1 where cd: "cell_death st rs = (st1, rs1)"
    by (cases "cell_death st rs")
  with cell_death_player [of st rs]
  have same: "level (player st1) = level (player st)" "points (player st1) = points (player st)"
    by (simp_all split: if_splits)
  with assms have "required_points (player st1) \<le> action"
    by (simp add: required_points_def)
  with cd same
  show "level (player (fst (update_player (Evolve action) st rs))) = level (player st) + 1"
    and "points (player (fst (update_player (Evolve action) st rs))) = points (player st) - action"
    using obtain_new_feature_frame
      [of "(player st1)\<lparr>level := level (player st1) + 1, points := points (player st1) - action\<rparr>" rs1]
    by (auto simp: update_player_def Let_def split: prod.splits)
qed

lemma update_player_Evolve_short:
  assumes "action < required_points (player st)"
  shows "update_player (Evolve action) st rs = cell_death st rs"
proof -
  obtain st1 rs1 where cd: "cell_death st rs = (st1, rs1)"
    by (cases "cell_death st rs")
  with cell_death_player [of st rs] have "level (player st1) = level (player st)"
    by (simp split: if_splits)
  with assms have "\<not> required_points (player st1) \<le> action"
    by (simp add: required_points_def)
  with cd show ?thesis
    by (simp add: update_player_def)
qed

lemma on_key_release_G:
  assumes "on_key_release Key_G st rs = Inr (st', rs')" and "cells (player st) \<noteq> []"
  obtains st2 rs1 where "player st2 = player st"
    and "st' = fst (update_player (Evolve (points (player st))) st2 rs1)"
proof -
  from assms(1) obtain st2 rs1 where p: "player st2 = player st"
    and r: "(st', rs') = (case actions st Key_G of None \<Rightarrow> (st2, rs1) | Some a \<Rightarrow> run_action a st2 rs1)"
    by (rule on_key_release_player)
  from r p assms(2) have "(st', rs') = update_player (Evolve (points (player st))) st2 rs1"
    by (simp add: actions_def run_action_def)
  then have "st' = fst (update_player (Evolve (points (player st))) st2 rs1)"
    by (metis fst_conv)
  with p show thesis by (rule that)
qed

text \<open>
  C1, as the code has it: an evolve command issued by a player that has at least one cell
  and at least \<open>required_points = level * 4\<close> points raises the level by exactly 1 and
  takes away all the points the player has (the command carries the points as its amount
  and \<^verbatim>\<open>points -= action\<close> subtracts that amount), so the points end at 0.
\<close>

theorem evolve_spends_every_point:
  assumes "on_key_release Key_G st rs = Inr (st', rs')"
    and "cells (player st) \<noteq> []"
    and "required_points (player st) \<le> points (player st)"
  shows "level (player st') = level (player st) + 1 \<and> points (player st') = 0"
proof -
  from assms(1,2) obtain st2 rs1 where p: "player st2 = player st"
    and r: "st' = fst (update_player (Evolve (points (player st))) st2 rs1)"
    by (rule on_key_release_G)
  from assms(3) p have "required_points (player st2) \<le> points (player st)"
    by (simp add: required_points_def)
  from update_player_Evolve_enough [OF this, of rs1] r p show ?thesis
    by simp
qed

text \<open>
  The claim of C1 as stated fails: with level 1 and 10 points the required points are 4,
  and the evolve command leaves 0 points, not \<open>10 - 4 = 6\<close>.
\<close>

theorem evolve_cost_counterexample:
  "required_points (start_player\<lparr>points := 10\<rparr>) = 4 \<and>
   map_option (points \<circ> player) (after_key Key_G (full_state (start_player\<lparr>points := 10\<rparr>)) []) = Some 0 \<and>
   map_option (level \<circ> player) (after_key Key_G (full_state (start_player\<lparr>points := 10\<rparr>)) []) = Some 2"
  by code_simp

theorem evolve_spends_every_point_witness:
  "\<exists>st'. after_key Key_G (full_state (start_player\<lparr>points := 10\<rparr>)) [] = Some st' \<and>
         level (player st') = 2 \<and> points (player st') = 0"
proof -
  let ?st = "full_state (start_player\<lparr>points := 10\<rparr>)"
  have "\<not> isl (on_key_release Key_G ?st [])"
    by code_simp
  then obtain st' rs' where run: "on_key_release Key_G ?st [] = Inr (st', rs')"
    by (cases "on_key_release Key_G ?st []") auto
  have "cells (player ?st) \<noteq> []" and "required_points (player ?st) \<le> points (player ?st)"
    by (simp_all add: full_state_def start_player_def required_points_def)
  from evolve_spends_every_point [OF run this]
  have "level (player st') = 2 \<and> points (player st') = 0"
    by (simp add: full_state_def start_player_def)
  with run show ?thesis by (simp add: after_key_def)
qed

lemma after_key_Some: "after_key k st rs = Some st' \<longleftrightarrow> (\<exists>rs'. on_key_release k st rs = Inr (st', rs'))"
  by (auto simp: after_key_def split: sum.splits)

lemma run_keys_reachable: "reachable st \<Longrightarrow> run_keys ks st = Some st' \<Longrightarrow> reachable st'"
proof (induction ks arbitrary: st)
  case Nil
  then show ?case by simp
next
  case (Cons a ks)
  obtain k rs where a: "a = (k, rs)" by (cases a)
  with Cons.prems(2) obtain st1 where k: "after_key k st rs = Some st1" and r: "run_keys ks st1 = Some st'"
    by (auto split: option.splits)
  from k Cons.prems(1) have "reachable st1"
    by (auto simp: after_key_Some intro: reach_key)
  from Cons.IH [OF this r] show ?case .
qed

lemma grown_game_reachable: "reachable grown_game"
proof -
  have "run_keys grown_keys new_omnivore \<noteq> None" by code_simp
  then have "run_keys grown_keys new_omnivore = Some grown_game"
    by (auto simp: grown_game_def)
  moreover have "reachable new_omnivore"
    unfolding new_omnivore_def by (rule reach_init)
  ultimately show ?thesis by (rule run_keys_reachable [rotated])
qed

text \<open>
  What a key release does before it looks at the action is what it does for a key that
  has no action: the footprint is cleared, food is spawned and the pending task is run.
\<close>

lemma on_key_release_other:
  "on_key_release Key_other st rs = Inr (st2, rs1) \<longleftrightarrow>
     (\<exists>st1. draw_player 0 st rs = Inr (st1, rs1) \<and> run_pending_task st1 = Inr st2)"
  by (auto simp: on_key_release_def actions_def split: sum.splits)

lemma on_key_release_split:
  assumes "on_key_release Key_other st rs = Inr (st2, rs1)"
  shows "on_key_release k st rs =
           Inr (case actions st k of None \<Rightarrow> (st2, rs1) | Some a \<Rightarrow> run_action a st2 rs1)"
    and "player st2 = player st"
    and "pending_task st2 = pending_task st"
    and "map length (grid st2) = map length (grid st)"
proof -
  from assms obtain st1 where d: "draw_player 0 st rs = Inr (st1, rs1)"
    and p: "run_pending_task st1 = Inr st2"
    by (auto simp: on_key_release_other)
  from draw_player_frame [OF d] run_pending_task_frame [OF p]
  show "player st2 = player st" and "pending_task st2 = pending_task st"
    and "map length (grid st2) = map length (grid st)"
    by simp_all
  from draw_player_frame [OF d] have "actions st1 k = actions st k"
    by (cases k) (simp_all add: actions_def)
  with d p show "on_key_release k st rs =
      Inr (case actions st k of None \<Rightarrow> (st2, rs1) | Some a \<Rightarrow> run_action a st2 rs1)"
    by (simp add: on_key_release_def split: option.splits)
qed

text \<open>
  C7, as the code has it: take an evolve command issued with fewer points than
  \<open>required_points\<close>, and let \<open>st2\<close> and \<open>rs1\<close> be the state and the random numbers that
  the key release has when it comes to the action. The command leaves level, points and
  features as they are, and adds nothing to the grid, the food counters and the pending
  task. It still makes the roll at the head of \<^verbatim>\<open>update_player\<close>: exactly when the next
  random number gives 66 and the player has more than one cell, the last cell is removed
  and the loss counter goes up by 1; otherwise cells and losses are as they were.
\<close>

theorem evolve_without_points:
  assumes "on_key_release Key_other st rs = Inr (st2, rs1)"
    and "on_key_release Key_G st rs = Inr (st', rs')"
    and "points (player st) < required_points (player st)"
  shows "level (player st') = level (player st) \<and>
         points (player st') = points (player st) \<and>
         features (player st') = features (player st) \<and>
         cells (player st') =
           (if death_hits st rs1 then butlast (cells (player st)) else cells (player st)) \<and>
         loses (player st') =
           (if death_hits st rs1 then loses (player st) + 1 else loses (player st)) \<and>
         grid st' = grid st2 \<and> herb_foods st' = herb_foods st2 \<and>
         carn_foods st' = carn_foods st2 \<and> pending_task st' = pending_task st2"
proof -
  note split = on_key_release_split(1) [OF assms(1), of Key_G] on_key_release_split(2) [OF assms(1)]
  from split(2) have hits: "death_hits st2 rs1 = death_hits st rs1"
    by (simp add: death_hits_def)
  show ?thesis
  proof (cases "cells (player st) = []")
    case True
    with split(1,2) assms(2) have "st' = st2"
      by (simp add: actions_def run_action_def)
    moreover from True have "\<not> death_hits st rs1"
      by (simp add: death_hits_def)
    ultimately show ?thesis using split(2) by simp
  next
    case False
    from assms(3) split(2) have "points (player st) < required_points (player st2)"
      by (simp add: required_points_def)
    with False split(1,2) assms(2) have "(st', rs') = cell_death st2 rs1"
      by (simp add: actions_def run_action_def update_player_Evolve_short)
    then have "st' = fst (cell_death st2 rs1)"
      by (metis fst_conv)
    with cell_death_player [of st2 rs1] cell_death_rest [of st2 rs1] hits split(2)
    show ?thesis by simp
  qed
qed

text \<open>
  The claim of C7 as stated fails. In the game played above the player has two cells,
  level 2 and no points; the evolve key is released, the roll is 66, and the player is
  left with one cell and one loss.
\<close>

theorem evolve_without_points_counterexample:
  "points (player grown_game) = 0 \<and> required_points (player grown_game) = 8 \<and>
   map (\<lambda>c. (cell_x c, cell_y c)) (cells (player grown_game)) = [(4, 0), (5, 0)] \<and>
   loses (player grown_game) = 0 \<and>
   map_option (map (\<lambda>c. (cell_x c, cell_y c)) \<circ> cells \<circ> player) (after_key Key_G grown_game [66])
     = Some [(4, 0)] \<and>
   map_option (loses \<circ> player) (after_key Key_G grown_game [66]) = Some 1"
  by code_simp

theorem evolve_without_points_witness:
  "death_hits grown_game [66] \<and> \<not> death_hits grown_game [0] \<and>
   (\<exists>st'. after_key Key_G grown_game [66] = Some st' \<and>
          level (player st') = 2 \<and> points (player st') = 0 \<and>
          cells (player st') = butlast (cells (player grown_game)) \<and> loses (player st') = 1) \<and>
   (\<exists>st'. after_key Key_G grown_game [0] = Some st' \<and>
          cells (player st') = cells (player grown_game) \<and> loses (player st') = 0)"
proof -
  have short: "points (player grown_game) < required_points (player grown_game)"
    by code_simp
  have facts: "level (player grown_game) = 2" "points (player grown_game) = 0"
    "loses (player grown_game) = 0"
    by code_simp+
  have run: "\<exists>st'. after_key Key_G grown_game rs = Some st' \<and>
      level (player st') = 2 \<and> points (player st') = 0 \<and>
      cells (player st') =
        (if death_hits grown_game rs then butlast (cells (player grown_game))
         else cells (player grown_game)) \<and>
      loses (player st') = (if death_hits grown_game rs then 1 else 0)"
    if other: "\<not> isl (on_key_release Key_other grown_game rs)"
      and same: "snd (projr (on_key_release Key_other grown_game rs)) = rs" for rs
  proof -
    from other obtain st2 rs1 where o: "on_key_release Key_other grown_game rs = Inr (st2, rs1)"
      by (cases "on_key_release Key_other grown_game rs") auto
    with same have rs1: "rs1 = rs" by simp
    from on_key_release_split(1) [OF o, of Key_G]
    obtain st' rs' where g: "on_key_release Key_G grown_game rs = Inr (st', rs')"
      by (cases "case actions grown_game Key_G of None \<Rightarrow> (st2, rs1)
                 | Some a \<Rightarrow> run_action a st2 rs1") auto
    from evolve_without_points [OF o g short] facts rs1 g show ?thesis
      by (auto simp: after_key_Some)
  qed
  have h66: "death_hits grown_game [66]" and h0: "\<not> death_hits grown_game [0]"
    by code_simp+
  have "\<not> isl (on_key_release Key_other grown_game [66])"
    and "snd (projr (on_key_release Key_other grown_game [66])) = [66]"
    and "\<not> isl (on_key_release Key_other grown_game [0])"
    and "snd (projr (on_key_release Key_other grown_game [0])) = [0]"
    by code_simp+
  from run [OF this(1,2)] run [OF this(3,4)] h66 h0 show ?thesis
    by auto
qed

subsection \<open>The roll in a directional command\<close>

lemma update_player_Tile_death:
  "cells (player (fst (update_player (Tile current cx cy) st rs))) =
     (if death_hits st rs then butlast (cells (player st)) else cells (player st))"
  "loses (player (fst (update_player (Tile current cx cy) st rs))) =
     (if death_hits st rs then loses (player st) + 1 else loses (player st))"
  "snd (update_player (Tile current cx cy) st rs) = tl rs"
  using cell_death_player [of st rs] cell_death_rest [of st rs]
  by (auto simp: update_player_def Let_def split: prod.splits)

text \<open>
  C3, as the code has it: in a directional command the roll is made once for every cell
  the loop processes, whatever tile value was read for that cell (food or not). Each time
  the roll is 66 while the player has more than one cell, the last cell of the list is
  removed (\<^verbatim>\<open>pop()\<close>) and the loss counter goes up by 1; the cell being processed is then
  moved if the list still holds it, and the loop goes on with the next position and the
  rest of the random numbers.
\<close>

theorem roll_for_every_cell:
  assumes "i < length (cells (player st))"
    and "target direction amount (cells (player st) ! i) = (cx, cy)"
    and "get_block cx cy (grid st) = Inr current"
  shows "\<exists>st1. cells_loop direction amount i st rs = cells_loop direction amount (Suc i) st1 (tl rs) \<and>
           loses (player st1) =
             (if death_hits st rs then loses (player st) + 1 else loses (player st)) \<and>
           cells (player st1) =
             (let cs = (if death_hits st rs then butlast (cells (player st)) else cells (player st))
              in if i < length cs then cs[i := update_coords direction amount (cs ! i)] else cs)"
proof -
  let ?st1 = "move_cell direction amount i (fst (update_player (Tile current cx cy) st rs))"
  from assms have "cells_loop direction amount i st rs = cells_loop direction amount (Suc i) ?st1 (tl rs)"
    by (subst cells_loop.simps) (simp add: update_player_Tile_death)
  moreover have "loses (player ?st1) =
      (if death_hits st rs then loses (player st) + 1 else loses (player st))"
    by (simp add: move_cell_frame update_player_Tile_death)
  moreover have "cells (player ?st1) =
      (let cs = (if death_hits st rs then butlast (cells (player st)) else cells (player st))
       in if i < length cs then cs[i := update_coords direction amount (cs ! i)] else cs)"
    by (simp add: move_cell_def Let_def update_player_Tile_death)
  ultimately show ?thesis by blast
qed

text \<open>
  The claim of C3 as stated fails: three cells move up on a grid without any food, the two
  rolls are 66, and two cells die in the one command.
\<close>

theorem roll_once_per_command_counterexample:
  "concat (grid (full_state (start_player\<lparr>cells := [Cell_init 0 0, Cell_init 1 0, Cell_init 2 0]\<rparr>)))
     = replicate 400 0 \<and>
   map_option (loses \<circ> player)
     (after_key Key_W
        (full_state (start_player\<lparr>cells := [Cell_init 0 0, Cell_init 1 0, Cell_init 2 0]\<rparr>))
        [66, 66])
     = Some 2 \<and>
   map_option (cells \<circ> player)
     (after_key Key_W
        (full_state (start_player\<lparr>cells := [Cell_init 0 0, Cell_init 1 0, Cell_init 2 0]\<rparr>))
        [66, 66])
     = Some [update_coords Ax_y 1 (Cell_init 0 0)]"
  by code_simp

theorem roll_for_every_cell_witness:
  "\<exists>st1. cells_loop Ax_y 1 0
           (full_state (start_player\<lparr>cells := [Cell_init 0 0, Cell_init 1 0, Cell_init 2 0]\<rparr>))
           [66, 66]
         = cells_loop Ax_y 1 (Suc 0) st1 [66] \<and>
         loses (player st1) = 1 \<and>
         cells (player st1) = [update_coords Ax_y 1 (Cell_init 0 0), Cell_init 1 0]"
proof -
  let ?st = "full_state (start_player\<lparr>cells := [Cell_init 0 0, Cell_init 1 0, Cell_init 2 0]\<rparr>)"
  have i: "0 < length (cells (player ?st))"
    by (simp add: full_state_def start_player_def)
  have t: "target Ax_y 1 (cells (player ?st) ! 0) = (0, 1)"
    by (simp add: full_state_def start_player_def target_def Cell_init_def)
  have g: "get_block 0 1 (grid ?st) = Inr 0"
    by (simp add: full_state_def get_block_def py_index_def Grid_init_def tiles_row_def tiles_col_def)
  have h: "death_hits ?st [66, 66]"
    by (simp add: death_hits_def randrange_def full_state_def start_player_def)
  from roll_for_every_cell [OF i t g, of "[66, 66]"] h show ?thesis
    by (simp add: full_state_def start_player_def)
qed

subsection \<open>The pending task\<close>

lemma set_block_succeeds:
  assumes "get_block col row g = Inr v"
  shows "\<exists>g'. set_block col row val g = Inr g'"
  using assms
  by (auto simp: get_block_def set_block_def split: option.splits)

lemma update_player_Tile_rejected:
  assumes "kind = 3 \<or> kind = 2"
    and "\<not> feeding_passes (feeding (features (player st))) kind"
  shows "pending_task (fst (update_player (Tile kind cx cy) st rs)) = Some (cx, cy, kind)"
    and "points (player (fst (update_player (Tile kind cx cy) st rs))) = points (player st)"
    and "herb_foods (fst (update_player (Tile kind cx cy) st rs)) = herb_foods st"
    and "carn_foods (fst (update_player (Tile kind cx cy) st rs)) = carn_foods st"
proof -
  obtain st1 rs1 where cd: "cell_death st rs = (st1, rs1)"
    by (cases "cell_death st rs")
  with cell_death_player [of st rs] cell_death_rest [of st rs]
  have same: "features (player st1) = features (player st)" "points (player st1) = points (player st)"
    "herb_foods st1 = herb_foods st" "carn_foods st1 = carn_foods st"
    by (simp_all split: if_splits)
  with assms cd have "fst (update_player (Tile kind cx cy) st rs) = st1\<lparr>pending_task := Some (cx, cy, kind)\<rparr>"
    by (auto simp: update_player_def)
  with same
  show "pending_task (fst (update_player (Tile kind cx cy) st rs)) = Some (cx, cy, kind)"
    and "points (player (fst (update_player (Tile kind cx cy) st rs))) = points (player st)"
    and "herb_foods (fst (update_player (Tile kind cx cy) st rs)) = herb_foods st"
    and "carn_foods (fst (update_player (Tile kind cx cy) st rs)) = carn_foods st"
    by simp_all
qed

subsection \<open>Where the code departs from what it sets out to do\<close>

text \<open>
  C2 asks that a directional command with a target outside the grid changes nothing. The
  code leaves the bounds check to the IndexError of the list read, and Python reads a
  negative index from the end of the list. In a new game the first key is \<open>A\<close>: the
  target of the only cell is column -1, the read succeeds on column 19, and the cell is
  moved to \<open>x = -1\<close>. Also, cells processed before the one whose read raises have been moved
  already: of two cells at columns 18 and 19 moving right, the first is moved onto the
  second, which stays.
\<close>

theorem move_outside_grid_moves_cells:
  "map (\<lambda>c. (cell_x c, cell_y c)) (cells (player (fst (Controller_init [])))) = [(0, 0)] \<and>
   target Ax_x (- 1) (Cell_init 0 0) = (- 1, 0) \<and>
   map_option (map (\<lambda>c. (cell_x c, cell_y c)) \<circ> cells \<circ> player)
     (after_key Key_A (fst (Controller_init [])) []) = Some [(- 1, 0)] \<and>
   map_option (map (\<lambda>c. (cell_x c, cell_y c)) \<circ> cells \<circ> player)
     (after_key Key_D (full_state (start_player\<lparr>cells := [Cell_init 18 0, Cell_init 19 0]\<rparr>)) [])
     = Some [(19, 0), (19, 0)]"
  by code_simp

text \<open>
  C5 asks that no food is written onto a tile that a cell occupies. \<^verbatim>\<open>_draw_foods\<close>
  checks the picked \<open>(row, col)\<close> against the cells, and then calls
  \<^verbatim>\<open>set_block(row, col, food)\<close>, whose parameters are \<open>(col, row, value)\<close>: the write goes
  to the mirrored tile. In a new game the key \<open>D\<close> moves the only cell to \<open>x = 1, y = 0\<close>.
  In the next frame the first herb attempt picks \<open>row = 1, col = 0\<close>: no cell is on that
  tile, and the frame leaves herb food on row 0, column 1, the cell's own tile.
\<close>

theorem food_written_onto_cell:
  "map_option (map (\<lambda>c. (cell_x c, cell_y c)) \<circ> cells \<circ> player)
     (after_key Key_D (fst (Controller_init [])) []) = Some [(1, 0)] \<and>
   \<not> cell_collision 1 0 (start_player\<lparr>cells := [Cell_init 1 0]\<rparr>) \<and>
   cell_collision 0 1 (start_player\<lparr>cells := [Cell_init 1 0]\<rparr>) \<and>
   map_option (get_block 1 0 \<circ> grid)
     (Option.bind (after_key Key_D (fst (Controller_init [])) []) (\<lambda>st. after_draw st [1, 0]))
     = Some (Inr 2) \<and>
   map_option herb_foods
     (Option.bind (after_key Key_D (fst (Controller_init [])) []) (\<lambda>st. after_draw st [1, 0]))
     = Some 10"
  by code_simp

text \<open>
  C6 asks that growth never puts a cell where a cell is. \<^verbatim>\<open>obtain_cell\<close> calls
  \<^verbatim>\<open>cell_collision(cell.x, cell.y)\<close>, whose parameters are \<open>(row, col)\<close>, so the candidate
  is compared with the mirror image of every cell. From the first cell at (0, 0), growth
  along \<open>x\<close> gives (1, 0); the same picks once more give (1, 0) again.
\<close>

theorem growth_duplicates_cell:
  "cells (fst (obtain_cell start_player [0, 0])) = [Cell_init 0 0, Cell_init 1 0] \<and>
   distinct (cells (fst (obtain_cell start_player [0, 0]))) \<and>
   cells (fst (obtain_cell (fst (obtain_cell start_player [0, 0])) [0, 0]))
     = [Cell_init 0 0, Cell_init 1 0, Cell_init 1 0]"
  by code_simp

subsection \<open>No key release and no frame raises\<close>

lemma py_index_Some_iff: "(\<exists>k. py_index xs i = Some k) \<longleftrightarrow> index_ok (length xs) i"
  by (auto simp: py_index_def index_ok_def)

lemma grid_shape_lengths:
  assumes "grid_shape g"
  shows "length g = tiles_row" and "r < tiles_row \<Longrightarrow> length (g ! r) = tiles_col"
proof -
  from assms have m: "map length g = replicate tiles_row tiles_col"
    by (simp add: grid_shape_def)
  then show len: "length g = tiles_row"
    by (metis length_map length_replicate)
  show "length (g ! r) = tiles_col" if "r < tiles_row"
  proof -
    from that len have "map length g ! r = length (g ! r)" by simp
    with m that show ?thesis by simp
  qed
qed

lemma get_block_ok_iff:
  assumes "grid_shape g"
  shows "(\<exists>v. get_block col row g = Inr v) \<longleftrightarrow> index_ok tiles_col col \<and> index_ok tiles_row row"
proof (cases "py_index g row")
  case None
  with py_index_Some_iff [of g row] grid_shape_lengths(1) [OF assms] show ?thesis
    by (simp add: get_block_def)
next
  case (Some r)
  with py_index_Some_iff [of g row] grid_shape_lengths(1) [OF assms]
  have row: "index_ok tiles_row row" by auto
  from Some grid_shape_lengths [OF assms] have "length (g ! r) = tiles_col"
    by (auto dest: py_index_less)
  with py_index_Some_iff [of "g ! r" col] Some row show ?thesis
    by (auto simp: get_block_def split: option.splits)
qed

lemma set_block_ok:
  assumes "grid_shape g" and "index_ok tiles_col col" and "index_ok tiles_row row"
  shows "\<exists>g'. set_block col row val g = Inr g' \<and> grid_shape g'"
proof -
  from get_block_ok_iff [OF assms(1), of col row] assms(2,3)
  obtain v where "get_block col row g = Inr v" by auto
  then obtain g' where g': "set_block col row val g = Inr g'"
    using set_block_succeeds by blast
  from set_block_shape [OF g'] assms(1) have "grid_shape g'"
    by (simp add: grid_shape_def)
  with g' show ?thesis by blast
qed

lemma stamp_cells_ok:
  assumes "grid_shape g" and "list_all cell_ok cs"
  shows "\<exists>g'. stamp_cells cs val g = Inr g' \<and> grid_shape g'"
  using assms
proof (induction cs arbitrary: g)
  case Nil
  then show ?case by simp
next
  case (Cons c cs)
  from Cons.prems have "index_ok tiles_col (cell_x c)" and "index_ok tiles_row (cell_y c)"
    by (simp_all add: cell_ok_def)
  from set_block_ok [OF Cons.prems(1) this, of val]
  obtain g1 where g1: "set_block (cell_x c) (cell_y c) val g = Inr g1" and s1: "grid_shape g1"
    by blast
  from Cons.prems(2) have "list_all cell_ok cs" by simp
  from Cons.IH [OF s1 this] g1 show ?case by simp
qed

lemma draw_foods_loop_ok:
  assumes "grid_shape (grid st)"
  shows "\<exists>r. draw_foods_loop fd n increased st rs = Inr r"
  using assms
proof (induction n arbitrary: increased st rs)
  case 0
  show ?case by simp
next
  case (Suc n)
  obtain row rs1 where r: "randrange 0 (int tiles_row) rs = (row, rs1)"
    by (cases "randrange 0 (int tiles_row) rs")
  obtain col rs2 where c: "randrange 0 (int tiles_col) rs1 = (col, rs2)"
    by (cases "randrange 0 (int tiles_col) rs1")
  from randrange_bounds [of 0 "int tiles_row" rs] r have row: "0 \<le> row" "row < int tiles_row"
    by (simp_all add: tiles_row_def)
  from randrange_bounds [of 0 "int tiles_col" rs1] c have col: "0 \<le> col" "col < int tiles_col"
    by (simp_all add: tiles_col_def)
  show ?case
  proof (cases "cell_collision row col (player st)")
    case True
    with r c Suc.IH [OF Suc.prems, of increased rs2] show ?thesis by simp
  next
    case False
    have "index_ok tiles_col row" and "index_ok tiles_row col"
      using row col by (simp_all add: index_ok_def tiles_row_def tiles_col_def)
    from set_block_ok [OF Suc.prems this, of fd]
    obtain g where g: "set_block row col fd (grid st) = Inr g" and s: "grid_shape g"
      by blast
    from s have "grid_shape (grid (st\<lparr>grid := g\<rparr>))" by simp
    from Suc.IH [OF this, of "increased + 1" rs2] False r c g show ?thesis by simp
  qed
qed

lemma draw_foods_ok:
  assumes "grid_shape (grid st)"
  shows "\<exists>r. draw_foods st rs = Inr r"
proof -
  have amount: "\<exists>r. draw_foods_amount fd amount st0 rs0 = Inr r" if "grid_shape (grid st0)"
    for fd amount st0 rs0
    using draw_foods_loop_ok [OF that] by (simp add: draw_foods_amount_def)
  from amount [OF assms] obtain r1
    where "draw_foods_amount 2 (max_food - herb_foods st) st rs = Inr r1"
    by blast
  moreover obtain n1 st1 rs1 where "r1 = (n1, st1, rs1)"
    by (cases r1)
  ultimately have a: "draw_foods_amount 2 (max_food - herb_foods st) st rs = Inr (n1, st1, rs1)"
    by simp
  from draw_foods_amount_frame [OF a] assms have "grid_shape (grid st1)"
    by (simp add: grid_shape_def)
  then have "grid_shape (grid (st1\<lparr>herb_foods := herb_foods st1 + n1\<rparr>))" by simp
  from amount [OF this] obtain r2
    where "draw_foods_amount 3 (max_food - carn_foods st)
             (st1\<lparr>herb_foods := herb_foods st1 + n1\<rparr>) rs1 = Inr r2"
    by blast
  with a show ?thesis
    by (cases r2) (simp add: draw_foods_def Let_def)
qed

lemma controller_ok_frame:
  assumes "controller_ok st" and "player st' = player st" and "pending_task st' = pending_task st"
    and "map length (grid st') = map length (grid st)"
  shows "controller_ok st'"
  using assms by (simp add: controller_ok_def grid_shape_def)

lemma draw_player_ok:
  assumes "controller_ok st"
  shows "\<exists>st' rs'. draw_player val st rs = Inr (st', rs') \<and> controller_ok st'"
proof -
  from assms have "grid_shape (grid st)" and "list_all cell_ok (cells (player st))"
    by (simp_all add: controller_ok_def)
  from stamp_cells_ok [OF this, of val]
  obtain g where g: "stamp_cells (cells (player st)) val (grid st) = Inr g" and s: "grid_shape g"
    by blast
  from s have "grid_shape (grid (st\<lparr>grid := g\<rparr>))" by simp
  from draw_foods_ok [OF this, of rs] obtain r where "draw_foods (st\<lparr>grid := g\<rparr>) rs = Inr r"
    by blast
  moreover obtain st' rs' where "r = (st', rs')"
    by (cases r)
  ultimately have d: "draw_player val st rs = Inr (st', rs')"
    using g by (simp add: draw_player_def)
  from draw_player_frame [OF d] have "controller_ok st'"
    using controller_ok_frame [OF assms, of st'] by simp
  with d show ?thesis by blast
qed

lemma run_pending_task_ok:
  assumes "controller_ok st"
  shows "\<exists>st'. run_pending_task st = Inr st' \<and> controller_ok st'"
proof (cases "pending_task st")
  case None
  with assms show ?thesis by (simp add: run_pending_task_def)
next
  case (Some t)
  obtain cx cy action where t: "t = (cx, cy, action)" by (cases t)
  from assms Some t have "grid_shape (grid st)" "index_ok tiles_col cx" "index_ok tiles_row cy"
    by (simp_all add: controller_ok_def)
  from set_block_ok [OF this, of action] obtain g where g: "set_block cx cy action (grid st) = Inr g"
    by blast
  with Some t have r: "run_pending_task st = Inr (st\<lparr>grid := g\<rparr>)"
    by (simp add: run_pending_task_def)
  from run_pending_task_frame [OF r] have "controller_ok (st\<lparr>grid := g\<rparr>)"
    using controller_ok_frame [OF assms, of "st\<lparr>grid := g\<rparr>"] by simp
  with r show ?thesis by blast
qed

lemma cell_death_ok:
  assumes "controller_ok st"
  shows "controller_ok (fst (cell_death st rs))"
proof -
  have "list_all cell_ok (butlast cs)" if "list_all cell_ok cs" for cs
    using that by (auto simp: list_all_iff dest: in_set_butlastD)
  moreover have "butlast cs \<noteq> []" if "1 < length cs" for cs :: "Cell list"
    using that by (cases cs) auto
  ultimately show ?thesis
    using assms cell_death_player [of st rs] cell_death_rest [of st rs]
    by (auto simp: controller_ok_def death_hits_def)
qed

lemma obtain_cell_loop_ok:
  assumes "cells p \<noteq> []" and "list_all cell_ok (cells p)"
  shows "cells (fst (obtain_cell_loop n p rs)) \<noteq> [] \<and>
         list_all cell_ok (cells (fst (obtain_cell_loop n p rs)))"
proof (induction n arbitrary: rs)
  case 0
  from assms show ?case by simp
next
  case (Suc n)
  obtain c rs1 where c: "choice (cells p) rs = (c, rs1)"
    by (cases "choice (cells p) rs")
  obtain through rs2 where t: "choice [Ax_x, Ax_y] rs1 = (through, rs2)"
    by (cases "choice [Ax_x, Ax_y] rs1")
  from assms c have "cell_ok c"
    using choice_in_set [of "cells p" rs] by (auto simp: list_all_iff)
  then have lower: "- int tiles_col \<le> cell_x (neighbour through c)"
    "- int tiles_row \<le> cell_y (neighbour through c)"
    by (cases through; simp add: neighbour_def Cell_init_def cell_ok_def index_ok_def)+
  show ?case
  proof (cases "obtain_cell_loop (Suc n) p rs = obtain_cell_loop n p rs2")
    case True
    with Suc.IH [of rs2] show ?thesis by simp
  next
    case False
    with c t have "obtain_cell_loop (Suc n) p rs = (p\<lparr>cells := cells p @ [neighbour through c]\<rparr>, rs2)"
      and "cell_x (neighbour through c) < int tiles_col \<and> cell_y (neighbour through c) < int tiles_row"
      by (simp_all add: Let_def split: if_splits)
    with lower have "obtain_cell_loop (Suc n) p rs = (p\<lparr>cells := cells p @ [neighbour through c]\<rparr>, rs2)"
      and "cell_ok (neighbour through c)"
      by (simp_all add: cell_ok_def index_ok_def)
    with assms show ?thesis by simp
  qed
qed

lemma obtain_new_feature_ok:
  assumes "cells p \<noteq> []" and "list_all cell_ok (cells p)"
  shows "cells (fst (obtain_new_feature p rs)) \<noteq> [] \<and>
         list_all cell_ok (cells (fst (obtain_new_feature p rs)))"
proof -
  obtain df rs1 where df: "randrange 1 4 rs = (df, rs1)"
    by (cases "randrange 1 4 rs")
  obtain ds rs2 where ds: "randrange (- 1) 2 rs1 = (ds, rs2)"
    by (cases "randrange (- 1) 2 rs1")
  obtain fd rs3 where fd: "choice Feeding_members rs2 = (fd, rs3)"
    by (cases "choice Feeding_members rs2")
  let ?p = "p\<lparr>features := reset_zero ((features p)
      \<lparr>food := food (features p) + df, speed := speed (features p) + ds, feeding := fd\<rparr>)\<rparr>"
  from assms have "cells ?p \<noteq> []" and "list_all cell_ok (cells ?p)"
    by simp_all
  from obtain_cell_loop_ok [OF this, of "length (cells ?p)" rs3] df ds fd show ?thesis
    by (simp add: obtain_new_feature_def obtain_cell_def Let_def)
qed

lemma Controller_init_ok: "controller_ok (fst (Controller_init rs))"
  by (simp add: Controller_init_def Player_init_def controller_ok_def grid_shape_def
        Grid_init_def cell_ok_def index_ok_def Cell_init_def tiles_row_def tiles_col_def
      split: prod.splits)

lemma update_player_ok:
  assumes "controller_ok st"
    and "\<And>action cx cy. u = Tile action cx cy \<Longrightarrow> index_ok tiles_col cx \<and> index_ok tiles_row cy"
  shows "controller_ok (fst (update_player u st rs))"
proof -
  obtain st1 rs1 where cd: "cell_death st rs = (st1, rs1)"
    by (cases "cell_death st rs")
  with cell_death_ok [OF assms(1), of rs] have ok: "controller_ok st1" by simp
  show ?thesis
  proof (cases u)
    case (Tile action cx cy)
    with assms(2) ok cd show ?thesis
      by (simp add: update_player_def controller_ok_def Let_def)
  next
    case (Evolve action)
    let ?p = "(player st1)\<lparr>level := level (player st1) + 1,
                points := points (player st1) - action\<rparr>"
    from ok have "cells ?p \<noteq> []" and "list_all cell_ok (cells ?p)"
      by (simp_all add: controller_ok_def)
    from obtain_new_feature_ok [OF this, of rs1] Evolve cd ok show ?thesis
      by (auto simp: update_player_def controller_ok_def Let_def split: prod.splits)
  next
    case Restart
    with cd Controller_init_ok [of rs1] show ?thesis
      by (auto simp: update_player_def Controller_init_def controller_ok_def split: prod.splits)
  qed
qed

lemma update_coords_target:
  "target direction amount c = (cx, cy) \<Longrightarrow>
   cell_x (update_coords direction amount c) = cx \<and> cell_y (update_coords direction amount c) = cy"
  by (cases direction) (auto simp: target_def)

lemma cells_loop_step_ok:
  assumes ok: "controller_ok st"
    and i: "i < length (cells (player st))"
    and t: "target direction amount (cells (player st) ! i) = (cx, cy)"
    and read: "get_block cx cy (grid st) = Inr current"
  shows "controller_ok (move_cell direction amount i (fst (update_player (Tile current cx cy) st rs)))"
proof -
  let ?st1 = "fst (update_player (Tile current cx cy) st rs)"
  from ok have "grid_shape (grid st)" by (simp add: controller_ok_def)
  from get_block_ok_iff [OF this, of cx cy] read
  have ix: "index_ok tiles_col cx \<and> index_ok tiles_row cy" by auto
  then have ok1: "controller_ok ?st1"
    by (intro update_player_ok [OF ok]) simp
  show ?thesis
  proof (cases "i < length (cells (player ?st1))")
    case False
    with ok1 show ?thesis by (simp add: move_cell_def)
  next
    case True
    then have "cells (player ?st1) ! i = cells (player st) ! i"
      by (simp add: update_player_Tile_death nth_butlast split: if_splits)
    with t ix have "cell_ok (update_coords direction amount (cells (player ?st1) ! i))"
      by (simp add: cell_ok_def update_coords_target)
    moreover from ok1 have "list_all cell_ok (cells (player ?st1))"
      by (simp add: controller_ok_def)
    ultimately have "list_all cell_ok
        ((cells (player ?st1))[i := update_coords direction amount (cells (player ?st1) ! i)])"
      using set_update_subset_insert [of "cells (player ?st1)" i]
      by (auto simp: list_all_iff)
    with ok1 True show ?thesis
      by (simp add: move_cell_def controller_ok_def Let_def)
  qed
qed

lemma cells_loop_ok:
  "controller_ok st \<Longrightarrow> controller_ok (fst (cells_loop direction amount i st rs))"
proof (induction direction amount i st rs rule: cells_loop.induct)
  case (1 direction amount i st rs)
  show ?case
  proof (cases "i < length (cells (player st))")
    case False
    with "1.prems" show ?thesis by (subst cells_loop.simps) simp
  next
    case True
    obtain cx cy where t: "target direction amount (cells (player st) ! i) = (cx, cy)"
      by (cases "target direction amount (cells (player st) ! i)")
    show ?thesis
    proof (cases "get_block cx cy (grid st)")
      case (Inl e)
      with True t "1.prems" show ?thesis by (subst cells_loop.simps) simp
    next
      case (Inr current)
      from cells_loop_step_ok [OF "1.prems" True t Inr]
      have "controller_ok (fst (cells_loop direction amount (Suc i)
              (move_cell direction amount i (fst (update_player (Tile current cx cy) st rs)))
              (snd (update_player (Tile current cx cy) st rs))))"
        by (rule "1.IH" [OF True t [symmetric] Inr])
      with True t Inr show ?thesis
        by (subst cells_loop.simps) simp
    qed
  qed
qed

lemma run_action_ok:
  assumes "controller_ok st"
  shows "controller_ok (fst (run_action a st rs))"
proof (cases a)
  case (Move direction amount)
  with assms show ?thesis by (simp add: run_action_def cells_loop_ok)
next
  case (Do_evolve amount)
  with assms update_player_ok [OF assms, of "Evolve amount" rs] show ?thesis
    by (simp add: run_action_def)
next
  case Do_restart
  with assms update_player_ok [OF assms, of Restart rs] show ?thesis
    by (simp add: run_action_def)
qed

lemma on_key_release_ok:
  assumes "controller_ok st"
  shows "\<exists>st' rs'. on_key_release k st rs = Inr (st', rs') \<and> controller_ok st'"
proof -
  from draw_player_ok [OF assms, of 0 rs]
  obtain st1 rs1 where d: "draw_player 0 st rs = Inr (st1, rs1)" and ok1: "controller_ok st1"
    by blast
  from run_pending_task_ok [OF ok1]
  obtain st2 where p: "run_pending_task st1 = Inr st2" and ok2: "controller_ok st2"
    by blast
  show ?thesis
  proof (cases "actions st1 k")
    case None
    with d p ok2 show ?thesis by (simp add: on_key_release_def)
  next
    case (Some a)
    obtain st' rs' where r: "run_action a st2 rs1 = (st', rs')"
      by (cases "run_action a st2 rs1")
    with run_action_ok [OF ok2, of a rs1] have "controller_ok st'" by simp
    with Some d p r show ?thesis by (simp add: on_key_release_def)
  qed
qed

lemma reachable_ok: "reachable st \<Longrightarrow> controller_ok st"
proof (induction rule: reachable.induct)
  case (reach_init rs)
  show ?case by (rule Controller_init_ok)
next
  case (reach_key st k rs st' rs')
  with on_key_release_ok [of st k rs] show ?case by simp
next
  case (reach_draw st rs st' rs')
  with draw_player_ok [of st 1 rs] show ?case by (simp add: on_draw_def)
qed

text \<open>
  In every state the game can reach, a key release and a frame run to their end without
  raising, the player has at least one cell, and the grid has its configured dimensions.
\<close>

lemma reachable_never_raises:
  assumes "reachable st"
  shows "\<exists>st' rs'. on_key_release k st rs = Inr (st', rs')"
    and "\<exists>st' rs'. on_draw st rs = Inr (st', rs')"
    and "cells (player st) \<noteq> []"
    and "map length (grid st) = replicate tiles_row tiles_col"
proof -
  from assms have ok: "controller_ok st" by (rule reachable_ok)
  from on_key_release_ok [OF ok, of k rs] show "\<exists>st' rs'. on_key_release k st rs = Inr (st', rs')"
    by blast
  from draw_player_ok [OF ok, of 1 rs] show "\<exists>st' rs'. on_draw st rs = Inr (st', rs')"
    by (auto simp: on_draw_def)
  from ok show "cells (player st) \<noteq> []" and "map length (grid st) = replicate tiles_row tiles_col"
    by (simp_all add: controller_ok_def grid_shape_def)
qed

text \<open>
  So in a reachable state that holds a pending task, the start of the next key release
  always puts the stored food kind back on the stored coordinate.
\<close>

lemma reachable_pending_task_restored:
  assumes "reachable st" and "pending_task st = Some (cx, cy, kind)"
  shows "\<exists>st2 rs2 st3. draw_player 0 st rs = Inr (st2, rs2) \<and> run_pending_task st2 = Inr st3 \<and>
           get_block cx cy (grid st3) = Inr kind"
proof -
  from assms(1) have "controller_ok st" by (rule reachable_ok)
  from draw_player_ok [OF this, of 0 rs]
  obtain st2 rs2 where d: "draw_player 0 st rs = Inr (st2, rs2)" and ok2: "controller_ok st2"
    by blast
  from draw_player_frame [OF d] assms(2) have pend: "pending_task st2 = Some (cx, cy, kind)"
    by simp
  with ok2 have "grid_shape (grid st2)" "index_ok tiles_col cx" "index_ok tiles_row cy"
    by (simp_all add: controller_ok_def)
  from set_block_ok [OF this, of kind] obtain g where g: "set_block cx cy kind (grid st2) = Inr g"
    by blast
  with pend have "run_pending_task st2 = Inr (st2\<lparr>grid := g\<rparr>)"
    by (simp add: run_pending_task_def)
  moreover from g have "get_block cx cy (grid (st2\<lparr>grid := g\<rparr>)) = Inr kind"
    by (simp add: set_block_get_block)
  ultimately show ?thesis using d by blast
qed

subsection \<open>The pending task through a directional command\<close>

lemma update_player_Tile_rest:
  "grid (fst (update_player (Tile v cx cy) st rs)) = grid st"
  "pending_task (fst (update_player (Tile v cx cy) st rs)) =
     (if rejects st v then Some (cx, cy, v) else pending_task st)"
proof -
  obtain st1 rs1 where cd: "cell_death st rs = (st1, rs1)"
    by (cases "cell_death st rs")
  with cell_death_player [of st rs] cell_death_rest [of st rs]
  have same: "features (player st1) = features (player st)" "grid st1 = grid st"
    "pending_task st1 = pending_task st"
    by (simp_all split: if_splits)
  with cd show "grid (fst (update_player (Tile v cx cy) st rs)) = grid st"
    and "pending_task (fst (update_player (Tile v cx cy) st rs)) =
           (if rejects st v then Some (cx, cy, v) else pending_task st)"
    by (auto simp: update_player_def rejects_def Let_def)
qed

text \<open>One turn of the loop, seen from the cells it has not come to yet.\<close>

lemma loop_turn:
  "grid (after_turn direction amount i v cx cy st rs) = grid st"
  "features (player (after_turn direction amount i v cx cy st rs)) = features (player st)"
  "pending_task (after_turn direction amount i v cx cy st rs) =
     (if rejects st v then Some (cx, cy, v) else pending_task st)"
  "length (cells (player (after_turn direction amount i v cx cy st rs))) =
     (if death_hits st rs then length (cells (player st)) - 1 else length (cells (player st)))"
  "m \<noteq> i \<Longrightarrow> m < length (cells (player (after_turn direction amount i v cx cy st rs))) \<Longrightarrow>
     cells (player (after_turn direction amount i v cx cy st rs)) ! m = cells (player st) ! m"
proof -
  let ?st1 = "after_turn direction amount i v cx cy st rs"
  show "grid ?st1 = grid st" and "features (player ?st1) = features (player st)"
    and "pending_task ?st1 = (if rejects st v then Some (cx, cy, v) else pending_task st)"
    by (simp_all add: move_cell_frame update_player_Tile_rest update_player_Tile_features)
  show "length (cells (player ?st1)) =
      (if death_hits st rs then length (cells (player st)) - 1 else length (cells (player st)))"
    by (simp add: move_cell_frame update_player_Tile_death)
  show "cells (player ?st1) ! m = cells (player st) ! m"
    if "m \<noteq> i" and "m < length (cells (player ?st1))"
  proof -
    let ?cs = "cells (player (fst (update_player (Tile v cx cy) st rs)))"
    from that(2) have m: "m < length ?cs"
      by (simp add: move_cell_frame)
    from that(1) have "cells (player ?st1) ! m = ?cs ! m"
      by (simp add: move_cell_def Let_def)
    also from m have "?cs ! m = cells (player st) ! m"
      by (simp add: update_player_Tile_death nth_butlast split: if_splits)
    finally show ?thesis .
  qed
qed

lemma loop_turn_ahead:
  assumes "m \<noteq> i"
    and "m < length (cells (player (move_cell direction amount i
                 (fst (update_player (Tile v cx cy) st rs)))))"
  shows "tile_ahead direction amount
           (move_cell direction amount i (fst (update_player (Tile v cx cy) st rs))) m
         = tile_ahead direction amount st m"
  using loop_turn(5) [OF assms] by (simp add: tile_ahead_def loop_turn(1))

lemma loop_turn_rejects:
  "rejects (move_cell direction amount i (fst (update_player (Tile v cx cy) st rs))) w = rejects st w"
  by (simp add: rejects_def loop_turn(2))

lemma cells_loop_turn:
  assumes "i < length (cells (player st))"
    and "target direction amount (cells (player st) ! i) = (cx, cy)"
    and "get_block cx cy (grid st) = Inr v"
  shows "cells_loop direction amount i st rs =
           cells_loop direction amount (Suc i)
             (move_cell direction amount i (fst (update_player (Tile v cx cy) st rs))) (tl rs)"
  using assms by (subst cells_loop.simps) (simp add: update_player_Tile_death)

lemma cells_loop_pending_kept:
  assumes "\<And>m v. i \<le> m \<Longrightarrow> m < length (cells (player st)) \<Longrightarrow>
             tile_ahead direction amount st m = Inr v \<Longrightarrow> \<not> rejects st v"
  shows "pending_task (fst (cells_loop direction amount i st rs)) = pending_task st"
  using assms
proof (induction direction amount i st rs rule: cells_loop.induct)
  case (1 direction amount i st rs)
  show ?case
  proof (cases "i < length (cells (player st))")
    case False
    then show ?thesis by (subst cells_loop.simps) simp
  next
    case True
    obtain cx cy where t: "target direction amount (cells (player st) ! i) = (cx, cy)"
      by (cases "target direction amount (cells (player st) ! i)")
    show ?thesis
    proof (cases "get_block cx cy (grid st)")
      case (Inl e)
      with True t show ?thesis by (subst cells_loop.simps) simp
    next
      case (Inr v)
      let ?st1 = "move_cell direction amount i (fst (update_player (Tile v cx cy) st rs))"
      from t Inr have "tile_ahead direction amount st i = Inr v"
        by (simp add: tile_ahead_def)
      with "1.prems" [of i v] True have nrej: "\<not> rejects st v" by simp
      have len: "length (cells (player ?st1)) \<le> length (cells (player st))"
        by (simp add: loop_turn(4))
      have "pending_task (fst (cells_loop direction amount (Suc i) ?st1
               (snd (update_player (Tile v cx cy) st rs)))) = pending_task ?st1"
      proof (rule "1.IH" [OF True t [symmetric] Inr])
        fix m w
        assume m: "Suc i \<le> m" "m < length (cells (player ?st1))"
          and a: "tile_ahead direction amount ?st1 m = Inr w"
        from m have "m \<noteq> i" by simp
        from loop_turn_ahead [OF this m(2)] a have "tile_ahead direction amount st m = Inr w"
          by simp
        with "1.prems" [of m w] m len have "\<not> rejects st w" by simp
        then show "\<not> rejects ?st1 w" by (simp add: loop_turn_rejects)
      qed
      also from nrej have "pending_task ?st1 = pending_task st"
        by (simp add: loop_turn(3))
      finally show ?thesis
        using True t Inr by (subst cells_loop.simps) simp
    qed
  qed
qed

lemma rolls_hit_0: "rolls_hit rs 0 = 0"
  by (simp add: rolls_hit_def)

lemma rolls_hit_Suc:
  "rolls_hit rs (Suc n) = (if fst (randrange 0 250 rs) = 66 then 1 else 0) + rolls_hit (tl rs) n"
proof -
  have "[0..<Suc n] = 0 # map Suc [0..<n]"
    by (simp add: upt_conv_Cons map_Suc_upt del: upt_Suc)
  then show ?thesis
    by (simp add: rolls_hit_def filter_map comp_def drop_Suc del: upt_Suc)
qed

lemma cells_loop_rejection_stored:
  assumes "j - i = n" and "i \<le> j"
    and "rolls_hit rs (j - i) + j < length (cells (player st))"
    and "target direction amount (cells (player st) ! j) = (cx, cy)"
    and "get_block cx cy (grid st) = Inr kind"
    and "rejects st kind"
    and "\<And>m. i \<le> m \<Longrightarrow> m < j \<Longrightarrow> \<exists>v. tile_ahead direction amount st m = Inr v"
    and "\<And>m v. j < m \<Longrightarrow> m < length (cells (player st)) \<Longrightarrow>
           tile_ahead direction amount st m = Inr v \<Longrightarrow> \<not> rejects st v"
  shows "pending_task (fst (cells_loop direction amount i st rs)) = Some (cx, cy, kind)"
  using assms
proof (induction n arbitrary: i st rs)
  case 0
  then have ij: "i = j" by simp
  let ?st1 = "move_cell direction amount j (fst (update_player (Tile kind cx cy) st rs))"
  from "0.prems"(3) have j: "j < length (cells (player st))" by simp
  have len: "length (cells (player ?st1)) \<le> length (cells (player st))"
    by (simp add: loop_turn(4))
  have "pending_task (fst (cells_loop direction amount (Suc j) ?st1 (tl rs))) = pending_task ?st1"
  proof (rule cells_loop_pending_kept)
    fix m w
    assume m: "Suc j \<le> m" "m < length (cells (player ?st1))"
      and a: "tile_ahead direction amount ?st1 m = Inr w"
    from m have "m \<noteq> j" by simp
    from loop_turn_ahead [OF this m(2)] a have "tile_ahead direction amount st m = Inr w"
      by simp
    with "0.prems"(8) [of m w] m len have "\<not> rejects st w" by simp
    then show "\<not> rejects ?st1 w" by (simp add: loop_turn_rejects)
  qed
  also from "0.prems"(6) have "pending_task ?st1 = Some (cx, cy, kind)"
    by (simp add: loop_turn(3))
  finally show ?case
    using cells_loop_turn [OF j "0.prems"(4,5), of rs] ij by simp
next
  case (Suc n)
  then have ij: "i < j" by simp
  from Suc.prems(3) have jlen: "j < length (cells (player st))" by simp
  with ij have i: "i < length (cells (player st))" by simp
  obtain ix iy where t: "target direction amount (cells (player st) ! i) = (ix, iy)"
    by (cases "target direction amount (cells (player st) ! i)")
  from Suc.prems(7) [of i] ij t obtain v where read: "get_block ix iy (grid st) = Inr v"
    by (auto simp: tile_ahead_def)
  let ?st1 = "move_cell direction amount i (fst (update_player (Tile v ix iy) st rs))"
  from Suc.prems(1) have n: "j - i = Suc (j - Suc i)" "j - Suc i = n" by simp_all
  have count: "rolls_hit (tl rs) (j - Suc i) + j < length (cells (player ?st1))"
  proof (cases "fst (randrange 0 250 rs) = 66")
    case True
    with Suc.prems(3) n(1) have more: "Suc (rolls_hit (tl rs) (j - Suc i) + j) < length (cells (player st))"
      by (simp add: rolls_hit_Suc)
    then have "death_hits st rs" using True by (simp add: death_hits_def)
    with more show ?thesis by (simp add: loop_turn(4))
  next
    case False
    with Suc.prems(3) n(1) have "rolls_hit (tl rs) (j - Suc i) + j < length (cells (player st))"
      by (simp add: rolls_hit_Suc)
    moreover from False have "\<not> death_hits st rs" by (simp add: death_hits_def)
    ultimately show ?thesis by (simp add: loop_turn(4))
  qed
  then have jlen1: "j < length (cells (player ?st1))" by simp
  have len: "length (cells (player ?st1)) \<le> length (cells (player st))"
    by (simp add: loop_turn(4))
  from ij have ji: "j \<noteq> i" by simp
  have "pending_task (fst (cells_loop direction amount (Suc i) ?st1 (tl rs))) = Some (cx, cy, kind)"
  proof (rule Suc.IH [OF n(2) _ count])
    show "Suc i \<le> j" using ij by simp
    show "target direction amount (cells (player ?st1) ! j) = (cx, cy)"
      using loop_turn(5) [OF ji jlen1] Suc.prems(4) by simp
    show "get_block cx cy (grid ?st1) = Inr kind"
      using Suc.prems(5) by (simp add: loop_turn(1))
    show "rejects ?st1 kind"
      using Suc.prems(6) by (simp add: loop_turn_rejects)
  next
    fix m
    assume m: "Suc i \<le> m" "m < j"
    then have "m \<noteq> i" and "m < length (cells (player ?st1))"
      using jlen1 by simp_all
    from loop_turn_ahead [OF this] Suc.prems(7) [of m] m
    show "\<exists>v. tile_ahead direction amount ?st1 m = Inr v" by simp
  next
    fix m w
    assume m: "j < m" "m < length (cells (player ?st1))"
      and a: "tile_ahead direction amount ?st1 m = Inr w"
    from m ij have "m \<noteq> i" by simp
    from loop_turn_ahead [OF this m(2)] a have "tile_ahead direction amount st m = Inr w"
      by simp
    with Suc.prems(8) [of m w] m len have "\<not> rejects st w" by simp
    then show "\<not> rejects ?st1 w" by (simp add: loop_turn_rejects)
  qed
  with cells_loop_turn [OF i t read, of rs] show ?case by simp
qed

lemma frames_keep:
  assumes "frames st st'" and "reachable st"
  shows "reachable st' \<and> pending_task st' = pending_task st \<and> player st' = player st"
  using assms
proof (induction rule: frames.induct)
  case (frames_none st)
  then show ?case by simp
next
  case (frames_draw st st1 rs st2 rs')
  then have r: "reachable st1" and p: "pending_task st1 = pending_task st"
    and q: "player st1 = player st"
    by simp_all
  from frames_draw.hyps(2) have d: "draw_player 1 st1 rs = Inr (st2, rs')"
    by (simp add: on_draw_def)
  from r frames_draw.hyps(2) have "reachable st2" by (rule reach_draw)
  with draw_player_frame [OF d] p q show ?case by simp
qed

lemma pending_task_run_by_key:
  assumes "reachable st" and "pending_task st = Some (cx, cy, kind)"
  shows "\<exists>st3 rs3. on_key_release Key_other st rs = Inr (st3, rs3) \<and>
           get_block cx cy (grid st3) = Inr kind"
  using reachable_pending_task_restored [OF assms, of rs]
  by (auto simp: on_key_release_other)

text \<open>
  C4: take a directional command released in a reachable state at tick T, and let \<open>st2\<close>
  and \<open>rs1\<close> be the state and the random numbers that the key release has when it comes
  to the command. Let the cell at position \<open>j\<close> have its target at \<open>(cx, cy)\<close>, where
  the grid then holds a food kind that the feeding type turns down, and let the loop come
  to that cell: the reads for the cells before it succeed, and fewer cells have been
  removed by rolls of 66 than stand behind it. If no cell after it is turned down in the
  same command, the key release ends with the pending task \<open>(cx, cy, kind)\<close>. Then, after
  any number of frames, the next key release, before it looks at its own command (that
  is, as for a key without action), has run the pending task, and \<open>(cx, cy)\<close> reads that
  food kind again; whatever the key, its command is run from that state.
\<close>

theorem rejected_food_restored_next_tick:
  assumes reach: "reachable st"
    and start: "on_key_release Key_other st rs = Inr (st2, rs1)"
    and move: "actions st k = Some (Move direction amount)"
    and lands: "target direction amount (cells (player st) ! j) = (cx, cy)"
    and tile: "get_block cx cy (grid st2) = Inr kind"
    and food_kind: "kind = 3 \<or> kind = 2"
    and diet: "\<not> feeding_passes (feeding (features (player st))) kind"
    and comes: "rolls_hit rs1 j + j < length (cells (player st))"
    and reads: "\<forall>m<j. \<exists>v. tile_ahead direction amount st2 m = Inr v"
    and later: "\<forall>m v. j < m \<and> m < length (cells (player st)) \<and>
                  tile_ahead direction amount st2 m = Inr v \<longrightarrow> \<not> rejects st2 v"
  shows "\<exists>stT rsT. on_key_release k st rs = Inr (stT, rsT) \<and>
           pending_task stT = Some (cx, cy, kind) \<and>
           (\<forall>stF rsF. frames stT stF \<longrightarrow>
              (\<exists>st3 rs3. on_key_release Key_other stF rsF = Inr (st3, rs3) \<and>
                 get_block cx cy (grid st3) = Inr kind \<and>
                 (\<forall>k'. on_key_release k' stF rsF =
                    Inr (case actions stF k' of None \<Rightarrow> (st3, rs3)
                         | Some a \<Rightarrow> run_action a st3 rs3))))"
proof -
  note split = on_key_release_split [OF start]
  obtain stT rsT where loop: "cells_loop direction amount 0 st2 rs1 = (stT, rsT)"
    by (cases "cells_loop direction amount 0 st2 rs1")
  with split(1) [of k] move have tick: "on_key_release k st rs = Inr (stT, rsT)"
    by (simp add: run_action_def)
  from diet food_kind split(2) have rej: "rejects st2 kind"
    by (auto simp: rejects_def)
  have "pending_task (fst (cells_loop direction amount 0 st2 rs1)) = Some (cx, cy, kind)"
  proof (rule cells_loop_rejection_stored [OF refl _ _ _ tile rej])
    show "0 \<le> j" by simp
    show "rolls_hit rs1 (j - 0) + j < length (cells (player st2))"
      using comes split(2) by simp
    show "target direction amount (cells (player st2) ! j) = (cx, cy)"
      using lands split(2) by simp
  next
    fix m assume "0 \<le> m" "m < j"
    with reads show "\<exists>v. tile_ahead direction amount st2 m = Inr v" by simp
  next
    fix m v
    assume "j < m" "m < length (cells (player st2))" "tile_ahead direction amount st2 m = Inr v"
    with later split(2) show "\<not> rejects st2 v" by simp
  qed
  with loop have stored: "pending_task stT = Some (cx, cy, kind)" by simp
  from reach tick have reachT: "reachable stT" by (rule reach_key)
  have next_tick: "\<exists>st3 rs3. on_key_release Key_other stF rsF = Inr (st3, rs3) \<and>
      get_block cx cy (grid st3) = Inr kind \<and>
      (\<forall>k'. on_key_release k' stF rsF =
         Inr (case actions stF k' of None \<Rightarrow> (st3, rs3) | Some a \<Rightarrow> run_action a st3 rs3))"
    if "frames stT stF" for stF rsF
  proof -
    from frames_keep [OF that reachT] stored
    have "reachable stF" and "pending_task stF = Some (cx, cy, kind)" by simp_all
    from pending_task_run_by_key [OF this, of rsF] obtain st3 rs3
      where o: "on_key_release Key_other stF rsF = Inr (st3, rs3)"
        and g: "get_block cx cy (grid st3) = Inr kind"
      by blast
    from on_key_release_split(1) [OF o] o g show ?thesis by blast
  qed
  from tick stored next_tick show ?thesis by blast
qed

text \<open>
  In the game played above the carnivore has cells (4, 0) and (5, 0), and a herb lies on
  column 5 of row 1. The key \<open>W\<close> is released: the first cell moves onto an empty tile,
  the second onto the herb, which is turned down. The frame that follows stamps the cell
  over the herb. The next key release clears the footprint and puts the herb back.
\<close>

theorem rejected_food_restored_next_tick_witness:
  "map (\<lambda>c. (cell_x c, cell_y c)) (cells (player grown_game)) = [(4, 0), (5, 0)] \<and>
   feeding (features (player grown_game)) = CARN \<and>
   get_block 5 1 (grid grown_game) = Inr 2 \<and>
   map_option pending_task (after_key Key_W grown_game [0]) = Some (Some (5, 1, 2)) \<and>
   map_option (map (\<lambda>c. (cell_x c, cell_y c)) \<circ> cells \<circ> player)
     (after_key Key_W grown_game [0]) = Some [(4, 1), (5, 1)] \<and>
   map_option (get_block 5 1 \<circ> grid)
     (after_draw (the (after_key Key_W grown_game [0])) []) = Some (Inr 1) \<and>
   (\<exists>st3. after_key Key_other
            (the (after_draw (the (after_key Key_W grown_game [0])) [])) [] = Some st3 \<and>
          get_block 5 1 (grid st3) = Inr 2)"
proof -
  let ?T = "the (after_key Key_W grown_game [0])"
  let ?F = "the (after_draw ?T [])"
  let ?o = "on_key_release Key_other grown_game [0]"
  have "\<not> isl ?o" by code_simp
  then have start: "?o = Inr (fst (projr ?o), snd (projr ?o))"
    by (cases ?o) auto
  have move: "actions grown_game Key_W = Some (Move Ax_y 1)" by code_simp
  have lands: "target Ax_y 1 (cells (player grown_game) ! 1) = (5, 1)" by code_simp
  have tile: "get_block 5 1 (grid (fst (projr ?o))) = Inr 2" by code_simp
  have diet: "\<not> feeding_passes (feeding (features (player grown_game))) 2" by code_simp
  have comes: "rolls_hit (snd (projr ?o)) 1 + 1 < length (cells (player grown_game))"
    by code_simp
  have first: "tile_ahead Ax_y 1 (fst (projr ?o)) 0 = Inr 0" by code_simp
  have two: "length (cells (player grown_game)) = 2" by code_simp
  have "\<exists>stT rsT. on_key_release Key_W grown_game [0] = Inr (stT, rsT) \<and>
      pending_task stT = Some (5, 1, 2) \<and>
      (\<forall>stF rsF. frames stT stF \<longrightarrow>
         (\<exists>st3 rs3. on_key_release Key_other stF rsF = Inr (st3, rs3) \<and>
            get_block 5 1 (grid st3) = Inr 2 \<and>
            (\<forall>k'. on_key_release k' stF rsF =
               Inr (case actions stF k' of None \<Rightarrow> (st3, rs3)
                    | Some a \<Rightarrow> run_action a st3 rs3))))"
  proof (rule rejected_food_restored_next_tick
      [OF grown_game_reachable start move lands tile _ diet comes])
    show "(2::int) = 3 \<or> (2::int) = 2" by simp
    show "\<forall>m<1. \<exists>v. tile_ahead Ax_y 1 (fst (projr ?o)) m = Inr v"
      using first by simp
    show "\<forall>m v. 1 < m \<and> m < length (cells (player grown_game)) \<and>
            tile_ahead Ax_y 1 (fst (projr ?o)) m = Inr v \<longrightarrow> \<not> rejects (fst (projr ?o)) v"
      using two by auto
  qed
  then obtain stT rsT where tick: "on_key_release Key_W grown_game [0] = Inr (stT, rsT)"
    and next_tick: "\<And>stF rsF. frames stT stF \<Longrightarrow>
        \<exists>st3 rs3. on_key_release Key_other stF rsF = Inr (st3, rs3) \<and>
          get_block 5 1 (grid st3) = Inr 2"
    by blast
  from tick have T: "?T = stT" by (simp add: after_key_def)
  have "\<not> isl (on_draw ?T [])" by code_simp
  with T obtain stF rs' where draw: "on_draw stT [] = Inr (stF, rs')"
    by (cases "on_draw stT []") auto
  with T have F: "?F = stF" by (simp add: after_draw_def)
  from draw have "frames stT stF"
    by (rule frames_draw [OF frames_none])
  from next_tick [OF this, of "[]"] F have "\<exists>st3. after_key Key_other ?F [] = Some st3 \<and>
      get_block 5 1 (grid st3) = Inr 2"
    by (auto simp: after_key_def)
  moreover have "map (\<lambda>c. (cell_x c, cell_y c)) (cells (player grown_game)) = [(4, 0), (5, 0)]"
    and "feeding (features (player grown_game)) = CARN"
    and "get_block 5 1 (grid grown_game) = Inr 2"
    and "map_option pending_task (after_key Key_W grown_game [0]) = Some (Some (5, 1, 2))"
    and "map_option (map (\<lambda>c. (cell_x c, cell_y c)) \<circ> cells \<circ> player)
           (after_key Key_W grown_game [0]) = Some [(4, 1), (5, 1)]"
    and "map_option (get_block 5 1 \<circ> grid) (after_draw ?T []) = Some (Inr 1)"
    by code_simp+
  ultimately show ?thesis by blast
qed

end
